theory Spec2Isabelle
  imports Complex_Main "HOL-Library.Sublist"
begin

section \<open>Values of the decoded document\<close>

text \<open>
  The planner works on what the YAML reader returns: \<^verbatim>\<open>None\<close>, booleans, integers,
  floats, strings, lists and dicts. A dict is an association list in insertion order (the
  reader never produces a repeated key). A float is a rational, or one of the three
  special values; the planner only compares floats with \<^verbatim>\<open>0.5, 1, 1.5, 2\<close> and tests
  them for zero, so the rounding of floats plays no part.
\<close>

datatype pyfloat = Finite rat | PosInf | NegInf | NaN

datatype pyval =
    PNone
  | PBool bool
  | PInt int
  | PFloat pyfloat
  | PStr string
  | PList "pyval list"
  | PDict "(pyval \<times> pyval) list"

text \<open>The three \<^verbatim>\<open>ValueError\<close>s of \<^verbatim>\<open>Task.__init__\<close>, told apart by their message.\<close>

datatype valmsg = StrangeDict | InvalidPriority | UnexpectedElementType

datatype error =
    ValueError valmsg
  | AttributeError
  | TypeError
  | KeyError
  | IndexError
  | RemoteError

text \<open>Python's truth value of an object (\<^verbatim>\<open>if val:\<close>).\<close>

fun truthy :: "pyval \<Rightarrow> bool" where
  "truthy PNone = False"
| "truthy (PBool b) = b"
| "truthy (PInt i) = (i \<noteq> 0)"
| "truthy (PFloat (Finite r)) = (r \<noteq> 0)"
| "truthy (PFloat _) = True"
| "truthy (PStr s) = (s \<noteq> [])"
| "truthy (PList xs) = (xs \<noteq> [])"
| "truthy (PDict kvs) = (kvs \<noteq> [])"

text \<open>
  The numeric value under which Python's \<^verbatim>\<open>==\<close> compares numbers:
  \<^verbatim>\<open>True == 1 == 1.0\<close>. Everything that is not a finite number has none and is equal
  to no number.
\<close>

fun num_val :: "pyval \<Rightarrow> rat option" where
  "num_val (PBool b) = Some (if b then 1 else 0)"
| "num_val (PInt i) = Some (of_int i)"
| "num_val (PFloat (Finite r)) = Some r"
| "num_val _ = None"

text \<open>\<^verbatim>\<open>e[k] in [0.5, 1, 1.5, 2]\<close>\<close>

definition valid_priority :: "pyval \<Rightarrow> bool" where
  "valid_priority v = (num_val v \<in> {Some (1/2), Some 1, Some (3/2), Some 2})"

text \<open>\<^verbatim>\<open>isinstance(e[k], (list, int, float))\<close>; \<^verbatim>\<open>bool\<close> is a subclass of \<^verbatim>\<open>int\<close>.\<close>

fun is_list_int_float :: "pyval \<Rightarrow> bool" where
  "is_list_int_float (PList _) = True"
| "is_list_int_float (PInt _) = True"
| "is_list_int_float (PBool _) = True"
| "is_list_int_float (PFloat _) = True"
| "is_list_int_float _ = False"

section \<open>The task tree\<close>

text \<open>
  \<^verbatim>\<open>class Task\<close>: the attributes \<^verbatim>\<open>name, priority, checklist, id, checklist_id\<close>.
  The attribute \<^verbatim>\<open>id\<close> is the selector \<open>id_task\<close>. No attribute is typed in the source:
  \<^verbatim>\<open>priority\<close> holds whatever the document gave, and the identifiers hold whatever the
  document or the remote service gave.
\<close>

datatype task =
  Task (name: pyval) (priority: pyval) (checklist: "task list")
       (id_task: pyval) (checklist_id: pyval)

abbreviation default_priority :: pyval where
  "default_priority \<equiv> PFloat (Finite 1)"

fun set_priority :: "task \<Rightarrow> pyval \<Rightarrow> task" where
  "set_priority (Task n p cl i ci) v = Task n v cl i ci"

fun set_id :: "task \<Rightarrow> pyval \<Rightarrow> task" where
  "set_id (Task n p cl i ci) v = Task n p cl v ci"

fun set_checklist_id :: "task \<Rightarrow> pyval \<Rightarrow> task" where
  "set_checklist_id (Task n p cl i ci) v = Task n p cl i v"

fun set_checklist :: "task \<Rightarrow> task list \<Rightarrow> task" where
  "set_checklist (Task n p cl i ci) cl' = Task n p cl' i ci"

text \<open>\<^verbatim>\<open>self.checklist.append(c)\<close>\<close>

fun append_child :: "task \<Rightarrow> task \<Rightarrow> task" where
  "append_child (Task n p cl i ci) c = Task n p (cl @ [c]) i ci"

text \<open>\<^verbatim>\<open>setattr(self, k, v)\<close>, which the source reaches only for the two identifier names.\<close>

fun setattr :: "task \<Rightarrow> string \<Rightarrow> pyval \<Rightarrow> task" where
  "setattr self k v = (if k = ''id'' then set_id self v else set_checklist_id self v)"

subsection \<open>Construction: \<^verbatim>\<open>Task.__init__\<close>\<close>

text \<open>
  \<open>Task_init nm data\<close> is \<^verbatim>\<open>Task(nm, data)\<close>; \<open>init_loop self es\<close> is the
  \<^verbatim>\<open>for e in data\<close> loop on the object built so far. A raise leaves no object behind,
  so the result is the error alone. The equations of \<open>init_loop\<close> follow the source's
  tests in order: a string, a dict (one key, then any other number of keys), anything else.
\<close>

fun Task_init :: "pyval \<Rightarrow> pyval \<Rightarrow> error + task"
and init_loop :: "task \<Rightarrow> pyval list \<Rightarrow> error + task"
where
  "Task_init nm (PList es) = init_loop (Task nm default_priority [] PNone PNone) es"
| "Task_init nm data = Inr (Task nm data [] PNone PNone)"
| "init_loop self [] = Inr self"
| "init_loop self (PStr s # es) =
     (case Task_init (PStr s) default_priority of
        Inl err \<Rightarrow> Inl err
      | Inr c \<Rightarrow> init_loop (append_child self c) es)"
| "init_loop self (PDict [(k, v)] # es) =
     (if k = PStr ''priority'' then
        (if valid_priority v then init_loop (set_priority self v) es
         else Inl (ValueError InvalidPriority))
      else
        (let self' = (if k = PStr ''id'' then setattr self ''id'' v
                      else if k = PStr ''checklist_id'' then setattr self ''checklist_id'' v
                      else self)
         in if is_list_int_float v then
              (case Task_init k v of
                 Inl err \<Rightarrow> Inl err
               | Inr c \<Rightarrow> init_loop (append_child self' c) es)
            else Inl (ValueError UnexpectedElementType)))"
| "init_loop self (PDict kvs # es) = Inl (ValueError StrangeDict)"
| "init_loop self (e # es) = init_loop self es"

subsection \<open>Serialization: \<^verbatim>\<open>Task.__iter__\<close>\<close>

text \<open>\<open>iter_task t\<close> is \<^verbatim>\<open>list(t)\<close>.\<close>

fun iter_task :: "task \<Rightarrow> pyval list" where
  "iter_task (Task n p cl i ci) =
     (if truthy n then
        (if truthy i then [PDict [(PStr ''id'', i)]] else []) @
        (if truthy ci then [PDict [(PStr ''checklist_id'', ci)]] else []) @
        (if truthy p then [PDict [(PStr ''priority'', p)]] else [])
      else []) @
     concat (map (\<lambda>t. if truthy (name t) then [PDict [(name t, PList (iter_task t))]] else [])
                 cl)"

subsection \<open>Newness: \<^verbatim>\<open>Task.is_new\<close>\<close>

text \<open>
  Reading an attribute that holds a list of tasks. A \<^verbatim>\<open>Task\<close> has one such attribute,
  \<^verbatim>\<open>checklist\<close>; the class defines no other, and \<^verbatim>\<open>setattr\<close> adds none.
\<close>

fun getattr_tasks :: "task \<Rightarrow> string \<Rightarrow> error + task list" where
  "getattr_tasks self a =
     (if a = ''checklist'' then Inr (checklist self) else Inl AttributeError)"

text \<open>\<^verbatim>\<open>a and b\<close>, with \<open>b\<close> already evaluated (it has no effect here).\<close>

fun py_and :: "pyval \<Rightarrow> pyval \<Rightarrow> pyval" where
  "py_and a b = (if truthy a then b else a)"

text \<open>
  \<open>is_new\<close> as written: the loop runs over \<^verbatim>\<open>self.checklists\<close>.
  \<open>is_new_loop n ts\<close> is the loop \<^verbatim>\<open>n = n and task.is_new()\<close>, which calls
  \<^verbatim>\<open>is_new\<close> only while \<open>n\<close> is true.
\<close>

function is_new :: "task \<Rightarrow> error + pyval"
and is_new_loop :: "pyval \<Rightarrow> task list \<Rightarrow> error + pyval"
where
  "is_new self =
     (let n = (if truthy (name self)
               then py_and (name self) (PBool (id_task self = PNone))
               else PBool True)
      in case getattr_tasks self ''checklists'' of
           Inl err \<Rightarrow> Inl err
         | Inr ts \<Rightarrow> is_new_loop n ts)"
| "is_new_loop n [] = Inr n"
| "is_new_loop n (t # ts) =
     (if truthy n then
        (case is_new t of Inl err \<Rightarrow> Inl err | Inr m \<Rightarrow> is_new_loop m ts)
      else is_new_loop n ts)"
  by pat_completeness auto

termination
  by (relation "measure (\<lambda>x. case x of Inl self \<Rightarrow> 2 * size self
                                     | Inr (n, ts) \<Rightarrow> 2 * size_list size ts + 1)")
     auto

section \<open>The remote service and \<^verbatim>\<open>Task.push\<close>\<close>

text \<open>
  The remote service is no part of the program. It is a parameter: a function from its
  own state and a call to a response (or an exception) and a new state. The two calls
  \<^verbatim>\<open>push\<close> makes:
  \<^item> \<open>PostTask line notes p\<close> is
    \<^verbatim>\<open>api.tasks.user.post(type='todo', text=line, notes=notes, priority=str(p))\<close>;
    the call records \<open>p\<close>, the value \<^verbatim>\<open>str\<close> is applied to;
  \<^item> \<open>PostChecklist tid item\<close> is \<^verbatim>\<open>api.tasks[tid].checklist.post(text=item)\<close>.

  A session is the state of the remote together with the calls issued so far, in order.
\<close>

datatype call =
    PostTask (line_arg: string) (notes_arg: string) (priority_arg: pyval)
  | PostChecklist (task_arg: pyval) (item_arg: pyval)

type_synonym 'w remote = "'w \<Rightarrow> call \<Rightarrow> (error + pyval) \<times> 'w"

type_synonym 'w session = "'w \<times> call list"

text \<open>
  What a method that mutates the tree leaves behind: the exception it raised, if any, the
  tree as mutated up to that point (the objects keep what was assigned before the raise),
  and the session.
\<close>

type_synonym ('a, 'w) outcome = "error option \<times> 'a \<times> 'w session"

fun request :: "'w remote \<Rightarrow> call \<Rightarrow> 'w session \<Rightarrow> (error + pyval) \<times> 'w session" where
  "request api c (w, cs) = (case api w c of (r, w') \<Rightarrow> (r, (w', cs @ [c])))"

text \<open>
  Subscripting a response: \<^verbatim>\<open>resp[s]\<close> with a string and \<^verbatim>\<open>resp[i]\<close> with an
  integer. A dict raises \<^verbatim>\<open>KeyError\<close> for a missing key, a list or string raises
  \<^verbatim>\<open>IndexError\<close> out of range (a negative index counts from the end) and
  \<^verbatim>\<open>TypeError\<close> for a string index; the other values cannot be subscripted.
\<close>

fun getitem_str :: "pyval \<Rightarrow> string \<Rightarrow> error + pyval" where
  "getitem_str (PDict kvs) s =
     (case map_of kvs (PStr s) of None \<Rightarrow> Inl KeyError | Some v \<Rightarrow> Inr v)"
| "getitem_str _ s = Inl TypeError"

fun seq_index :: "nat \<Rightarrow> int \<Rightarrow> nat option" where
  "seq_index len i =
     (if 0 \<le> i \<and> i < int len then Some (nat i)
      else if i < 0 \<and> - int len \<le> i then Some (nat (int len + i))
      else None)"

fun getitem_int :: "pyval \<Rightarrow> int \<Rightarrow> error + pyval" where
  "getitem_int (PList xs) i =
     (case seq_index (length xs) i of None \<Rightarrow> Inl IndexError | Some j \<Rightarrow> Inr (xs ! j))"
| "getitem_int (PStr s) i =
     (case seq_index (length s) i of None \<Rightarrow> Inl IndexError | Some j \<Rightarrow> Inr (PStr [s ! j]))"
| "getitem_int (PDict kvs) i =
     (case find (\<lambda>kv. num_val (fst kv) = Some (of_int i)) kvs of
        None \<Rightarrow> Inl KeyError
      | Some kv \<Rightarrow> Inr (snd kv))"
| "getitem_int _ i = Inl TypeError"

text \<open>\<^verbatim>\<open>resp['checklist'][task_number]['id']\<close>\<close>

definition item_id :: "pyval \<Rightarrow> nat \<Rightarrow> error + pyval" where
  "item_id resp task_number =
     (case getitem_str resp ''checklist'' of
        Inl err \<Rightarrow> Inl err
      | Inr cl \<Rightarrow>
          (case getitem_int cl (int task_number) of
             Inl err \<Rightarrow> Inl err
           | Inr item \<Rightarrow> getitem_str item ''id''))"

text \<open>
  The text of the task is the name followed by a fixed marker; \<^verbatim>\<open>+\<close> raises
  \<^verbatim>\<open>TypeError\<close> when the name is not a string. The note is the fixed message,
  untranslated, after \<^verbatim>\<open>dedent\<close> (which removes nothing, the first line having no
  indentation) and with its newlines replaced by spaces.
\<close>

definition progress_suffix :: string where
  "progress_suffix =
     ''  ![progress](http://progressed.io/bar/0 '' @ [CHR 0x22] @ ''progress'' @ [CHR 0x22] @ '')''"

definition note_text :: string where
  "note_text = ''Please, do not edit this by hand!             Update the YAML file you got from first upload and fix everything there,             then run `habitica_planner update` to push new values to server.''"

fun task_text :: "pyval \<Rightarrow> error + string" where
  "task_text (PStr s) = Inr (s @ progress_suffix)"
| "task_text _ = Inl TypeError"

text \<open>
  The loop over \<^verbatim>\<open>self.checklist\<close> inside \<^verbatim>\<open>if self.name:\<close>: for each child with a
  true name, \<^verbatim>\<open>task_number += 1\<close>, one checklist call, and the assignment of
  \<^verbatim>\<open>task.checklist_id\<close>. \<open>task_number\<close> is the counter before the child.
\<close>

fun push_items ::
  "'w remote \<Rightarrow> pyval \<Rightarrow> nat \<Rightarrow> task list \<Rightarrow> 'w session \<Rightarrow> (task list, 'w) outcome" where
  "push_items api self_id task_number [] s = (None, [], s)"
| "push_items api self_id task_number (t # ts) s =
     (if truthy (name t) then
        (case request api (PostChecklist self_id (name t)) s of
           (Inl err, s1) \<Rightarrow> (Some err, t # ts, s1)
         | (Inr resp, s1) \<Rightarrow>
             (case item_id resp (task_number + 1) of
                Inl err \<Rightarrow> (Some err, t # ts, s1)
              | Inr v \<Rightarrow>
                  (case push_items api self_id (task_number + 1) ts s1 of
                     (r, ts', s2) \<Rightarrow> (r, set_checklist_id t v # ts', s2))))
      else
        (case push_items api self_id task_number ts s of
           (r, ts', s') \<Rightarrow> (r, t # ts', s')))"

text \<open>The number of tasks of a tree, for the termination of \<open>push\<close>.\<close>

fun nodes :: "task \<Rightarrow> nat" where
  "nodes (Task n p cl i ci) = Suc (sum_list (map nodes cl))"

lemma nodes_set_checklist_id [simp]: "nodes (set_checklist_id t v) = nodes t"
  by (cases t) simp

lemma nodes_pos [simp]: "0 < nodes t"
  by (cases t) simp

lemma push_items_nodes:
  "push_items api sid k ts s = (r, ts', s') \<Longrightarrow> map nodes ts' = map nodes ts"
  by (induction ts arbitrary: k s r ts' s')
     (auto split: if_splits prod.splits sum.splits)

lemma push_items_nodes_sym:
  "(r, ts', s') = push_items api sid k ts s \<Longrightarrow>
   sum_list (map nodes ts') = sum_list (map nodes ts)"
  using push_items_nodes[of api sid k ts s r ts' s'] by simp

text \<open>
  \<open>push api self s\<close> is \<^verbatim>\<open>self.push(api)\<close>, and \<open>push_children\<close> the final loop
  \<^verbatim>\<open>for task in Progress(self.checklist): task.push(api)\<close> (\<^verbatim>\<open>Progress\<close> only draws a
  progress bar around the iteration). The recursion runs on the children as the checklist
  loop left them. Line 105 of the source closes one parenthesis too many; the model reads
  the statement without it.
\<close>

function push :: "'w remote \<Rightarrow> task \<Rightarrow> 'w session \<Rightarrow> (task, 'w) outcome"
and push_children :: "'w remote \<Rightarrow> task list \<Rightarrow> 'w session \<Rightarrow> (task list, 'w) outcome"
where
  "push api (Task n p cl i ci) s =
     (if truthy n then
        (case task_text n of
           Inl err \<Rightarrow> (Some err, Task n p cl i ci, s)
         | Inr line \<Rightarrow>
             (case request api (PostTask line note_text p) s of
                (Inl err, s1) \<Rightarrow> (Some err, Task n p cl i ci, s1)
              | (Inr resp, s1) \<Rightarrow>
                  (case getitem_str resp ''id'' of
                     Inl err \<Rightarrow> (Some err, Task n p cl i ci, s1)
                   | Inr v \<Rightarrow>
                       (case push_items api v 0 cl s1 of
                          (Some err, cl1, s2) \<Rightarrow> (Some err, Task n p cl1 v ci, s2)
                        | (None, cl1, s2) \<Rightarrow>
                            (case push_children api cl1 s2 of
                               (r, cl2, s3) \<Rightarrow> (r, Task n p cl2 v ci, s3))))))
      else
        (case push_children api cl s of
           (r, cl', s') \<Rightarrow> (r, Task n p cl' i ci, s')))"
| "push_children api [] s = (None, [], s)"
| "push_children api (t # ts) s =
     (case push api t s of
        (Some err, t', s1) \<Rightarrow> (Some err, t' # ts, s1)
      | (None, t', s1) \<Rightarrow>
          (case push_children api ts s1 of
             (r, ts', s2) \<Rightarrow> (r, t' # ts', s2)))"
  by pat_completeness auto

termination
  by (relation "measure (\<lambda>x. case x of
          Inl (api, t, s) \<Rightarrow> 2 * nodes t
        | Inr (api, ts, s) \<Rightarrow> 2 * sum_list (map nodes ts) + 1)")
     (auto dest!: push_items_nodes_sym)

section \<open>Notions used to state the properties\<close>

subsection \<open>Elements of a sequence\<close>

text \<open>A \<^verbatim>\<open>{"priority": v}\<close> entry and its value; strings and mappings.\<close>

fun is_priority_entry :: "pyval \<Rightarrow> bool" where
  "is_priority_entry (PDict [(k, v)]) = (k = PStr ''priority'')"
| "is_priority_entry _ = False"

fun entry_value :: "pyval \<Rightarrow> pyval" where
  "entry_value (PDict [(k, v)]) = v"
| "entry_value _ = PNone"

fun is_str :: "pyval \<Rightarrow> bool" where
  "is_str (PStr _) = True"
| "is_str _ = False"

fun is_dict :: "pyval \<Rightarrow> bool" where
  "is_dict (PDict _) = True"
| "is_dict _ = False"

definition with_priority :: "pyval \<Rightarrow> error + task \<Rightarrow> error + task" where
  "with_priority p r = (case r of Inl err \<Rightarrow> Inl err | Inr t \<Rightarrow> Inr (set_priority t p))"

definition last_priority :: "pyval \<Rightarrow> pyval list \<Rightarrow> pyval" where
  "last_priority p0 es =
     (if filter is_priority_entry es = [] then p0
      else entry_value (last (filter is_priority_entry es)))"

text \<open>
  The elements at which construction raises: a mapping whose number of keys is not one, a
  priority entry with an invalid value, a single-key mapping with another key whose value
  is no list, int or float, and a single-key mapping whose list value holds such an
  element in turn.
\<close>

fun raising :: "pyval \<Rightarrow> bool" where
  "raising (PDict [(k, v)]) =
     (if k = PStr ''priority'' then \<not> valid_priority v
      else (case v of
              PList es \<Rightarrow> list_ex raising es
            | PInt _ \<Rightarrow> False
            | PBool _ \<Rightarrow> False
            | PFloat _ \<Rightarrow> False
            | _ \<Rightarrow> True))"
| "raising (PDict kvs) = True"
| "raising _ = False"

text \<open>The same with "a multi-key mapping" in place of "a number of keys that is not one".\<close>

fun raising_multi_key :: "pyval \<Rightarrow> bool" where
  "raising_multi_key (PDict [(k, v)]) =
     (if k = PStr ''priority'' then \<not> valid_priority v
      else (case v of
              PList es \<Rightarrow> list_ex raising_multi_key es
            | PInt _ \<Rightarrow> False
            | PBool _ \<Rightarrow> False
            | PFloat _ \<Rightarrow> False
            | _ \<Rightarrow> True))"
| "raising_multi_key (PDict kvs) = (1 < length kvs)"
| "raising_multi_key _ = False"

subsection \<open>Trees that survive the round trip\<close>

text \<open>
  A subtask is plain when its name is a non-empty string other than the three keys the
  parser gives a meaning to, its priority is one of the four values, it has no
  identifiers, and its subtasks are plain. A root is plain when it has no name, the
  default priority, no identifiers, and plain subtasks.
\<close>

fun plain_name :: "pyval \<Rightarrow> bool" where
  "plain_name (PStr s) =
     (s \<noteq> [] \<and> s \<noteq> ''priority'' \<and> s \<noteq> ''id'' \<and> s \<noteq> ''checklist_id'')"
| "plain_name _ = False"

fun plain :: "task \<Rightarrow> bool" where
  "plain (Task n p cl i ci) =
     (plain_name n \<and> valid_priority p \<and> i = PNone \<and> ci = PNone \<and> list_all plain cl)"

definition plain_root :: "task \<Rightarrow> bool" where
  "plain_root t =
     (name t = PNone \<and> priority t = default_priority \<and> id_task t = PNone \<and>
      checklist_id t = PNone \<and> list_all plain (checklist t))"

text \<open>What \<open>iter_task\<close> yields for one child.\<close>

definition entry :: "task \<Rightarrow> pyval list" where
  "entry t = (if truthy (name t) then [PDict [(name t, PList (iter_task t))]] else [])"

subsection \<open>The tree without its identifiers\<close>

fun shape :: "task \<Rightarrow> task" where
  "shape (Task n p cl i ci) = Task n p (map shape cl) PNone PNone"

text \<open>
  What push has no assignment for. \<open>kept parent_named t\<close> is \<open>t\<close> with the
  identifiers that push may assign erased, and all others left in place: the \<^verbatim>\<open>id\<close> of
  a task is erased only where the task has a true name, and the \<^verbatim>\<open>checklist_id\<close> only
  where the task has a true name and is the child of a task with a true name
  (\<open>parent_named\<close>).
\<close>

fun kept :: "bool \<Rightarrow> task \<Rightarrow> task" where
  "kept parent_named (Task n p cl i ci) =
     Task n p (map (kept (truthy n)) cl)
       (if truthy n then PNone else i)
       (if parent_named \<and> truthy n then PNone else ci)"

subsection \<open>The planned sequence of calls\<close>

text \<open>
  A call without the values that come from responses: the text of a task, the text of a
  checklist item. \<open>plan t\<close> is the pre-order walk of \<open>t\<close> in document order: the task
  itself if it has a name, then one checklist item for each of its named children, then
  the plans of all its children.
\<close>

datatype planned = TaskCall string | ItemCall pyval

fun label :: "call \<Rightarrow> planned" where
  "label (PostTask line nt p) = TaskCall line"
| "label (PostChecklist tid item) = ItemCall item"

fun text_of :: "pyval \<Rightarrow> string" where
  "text_of (PStr s) = s @ progress_suffix"
| "text_of _ = []"

definition named_children :: "task list \<Rightarrow> task list" where
  "named_children cl = filter (\<lambda>t. truthy (name t)) cl"

fun plan :: "task \<Rightarrow> planned list" where
  "plan (Task n p cl i ci) =
     (if truthy n then TaskCall (text_of n) # map (\<lambda>t. ItemCall (name t)) (named_children cl)
      else []) @
     concat (map plan cl)"

definition follows :: "call list \<Rightarrow> call list \<Rightarrow> error option \<Rightarrow> planned list \<Rightarrow> bool" where
  "follows cs cs' r pl =
     (\<exists>new. cs' = cs @ new \<and> prefix (map label new) pl \<and> (r = None \<longrightarrow> map label new = pl))"

fun is_PostTask :: "call \<Rightarrow> bool" where
  "is_PostTask (PostTask line nt p) = True"
| "is_PostTask (PostChecklist tid item) = False"

subsection \<open>Checklist positions and responses\<close>

text \<open>
  \<open>slot ts j\<close> is the position of child \<open>j\<close> among the named children, counted from 1.
  \<open>replies api w cs\<close> are the responses of the remote to the calls \<open>cs\<close> made in turn
  from state \<open>w\<close>.
\<close>

definition slot :: "task list \<Rightarrow> nat \<Rightarrow> nat" where
  "slot ts j = length (named_children (take (Suc j) ts))"

fun replies :: "'w remote \<Rightarrow> 'w \<Rightarrow> call list \<Rightarrow> (error + pyval) list" where
  "replies api w [] = []"
| "replies api w (c # cs) = (case api w c of (r, w') \<Rightarrow> r # replies api w' cs)"

definition item_calls :: "pyval \<Rightarrow> task list \<Rightarrow> call list" where
  "item_calls sid ts = map (\<lambda>t. PostChecklist sid (name t)) (named_children ts)"

definition assigned ::
  "'w remote \<Rightarrow> 'w \<Rightarrow> pyval \<Rightarrow> nat \<Rightarrow> task list \<Rightarrow> task list \<Rightarrow> nat \<Rightarrow> bool" where
  "assigned api w sid k ts ts' j =
     (if truthy (name (ts ! j)) then
        (\<exists>resp v. replies api w (item_calls sid ts) ! (slot ts j - 1) = Inr resp \<and>
                  item_id resp (k + slot ts j) = Inr v \<and>
                  ts' ! j = set_checklist_id (ts ! j) v)
      else ts' ! j = ts ! j)"

subsection \<open>Example inputs\<close>

text \<open>The document of the end-to-end example and the tree it parses to.\<close>

definition example_doc :: pyval where
  "example_doc = PList [PStr ''Buy milk'',
     PDict [(PStr ''Clean house'',
       PList [PStr ''Vacuum'', PStr ''Dishes'', PDict [(PStr ''priority'', PInt 2)]])]]"

definition example_tree :: task where
  "example_tree = Task PNone default_priority
       [Task (PStr ''Buy milk'') default_priority [] PNone PNone,
        Task (PStr ''Clean house'') (PInt 2)
         [Task (PStr ''Vacuum'') default_priority [] PNone PNone,
          Task (PStr ''Dishes'') default_priority [] PNone PNone]
         PNone PNone]
       PNone PNone"

text \<open>
  A remote to run the examples on. Its state counts the calls served. A task call
  returns \<^verbatim>\<open>{'id': 't<n>'}\<close>; a checklist call returns
  \<^verbatim>\<open>{'checklist': [{'id': 'c<n>0'}, ..., {'id': 'c<n>3'}]}\<close>, so that every index the
  examples read is present.
\<close>

definition digit :: "nat \<Rightarrow> char" where
  "digit n = ''0123456789'' ! (n mod 10)"

fun stub_remote :: "nat remote" where
  "stub_remote w (PostTask line nt p) =
     (Inr (PDict [(PStr ''id'', PStr (''t'' @ [digit w]))]), Suc w)"
| "stub_remote w (PostChecklist tid item) =
     (Inr (PDict [(PStr ''checklist'',
             PList (map (\<lambda>j. PDict [(PStr ''id'', PStr (''c'' @ [digit w] @ [digit j]))])
                        [0..<4]))]), Suc w)"

text \<open>
  A remote that answers a checklist call with the list of the items created so far, the
  new one last, as a list indexed from 0.
\<close>

fun appending_remote :: "pyval list remote" where
  "appending_remote items (PostTask line nt p) =
     (Inr (PDict [(PStr ''id'', PStr ''t'')]), [])"
| "appending_remote items (PostChecklist tid item) =
     (Inr (PDict [(PStr ''checklist'',
             PList (map (\<lambda>x. PDict [(PStr ''id'', x)]) (items @ [item])))]),
      items @ [item])"

text \<open>The example after a push to \<open>stub_remote\<close>, and the calls of that push.\<close>

definition example_pushed :: task where
  "example_pushed = Task PNone default_priority
       [Task (PStr ''Buy milk'') default_priority [] (PStr ''t0'') PNone,
        Task (PStr ''Clean house'') (PInt 2)
         [Task (PStr ''Vacuum'') default_priority [] (PStr ''t4'') (PStr ''c21''),
          Task (PStr ''Dishes'') default_priority [] (PStr ''t5'') (PStr ''c32'')]
         (PStr ''t1'') PNone]
       PNone PNone"

definition example_calls :: "call list" where
  "example_calls =
     [PostTask (''Buy milk'' @ progress_suffix) note_text default_priority,
      PostTask (''Clean house'' @ progress_suffix) note_text (PInt 2),
      PostChecklist (PStr ''t1'') (PStr ''Vacuum''),
      PostChecklist (PStr ''t1'') (PStr ''Dishes''),
      PostTask (''Vacuum'' @ progress_suffix) note_text default_priority,
      PostTask (''Dishes'' @ progress_suffix) note_text default_priority]"

text \<open>The children parsed from \<^verbatim>\<open>["x", "", "y"]\<close>: the second has an empty name.\<close>

definition gap_children :: "task list" where
  "gap_children = [Task (PStr ''x'') default_priority [] PNone PNone,
                   Task (PStr '''') default_priority [] PNone PNone,
                   Task (PStr ''y'') default_priority [] PNone PNone]"

text \<open>
  The task \<^verbatim>\<open>p\<close> with these children, as parsed from \<^verbatim>\<open>{"p": ["x", "", "y"]}\<close>, the
  task after a push to \<open>stub_remote\<close>, and the calls of that push.
\<close>

definition gap_task :: task where
  "gap_task = Task (PStr ''p'') default_priority gap_children PNone PNone"

definition gap_pushed :: task where
  "gap_pushed = Task (PStr ''p'') default_priority
     [Task (PStr ''x'') default_priority [] (PStr ''t3'') (PStr ''c11''),
      Task (PStr '''') default_priority [] PNone PNone,
      Task (PStr ''y'') default_priority [] (PStr ''t4'') (PStr ''c22'')]
     (PStr ''t0'') PNone"

definition gap_calls :: "call list" where
  "gap_calls =
     [PostTask (''p'' @ progress_suffix) note_text default_priority,
      PostChecklist (PStr ''t0'') (PStr ''x''),
      PostChecklist (PStr ''t0'') (PStr ''y''),
      PostTask (''x'' @ progress_suffix) note_text default_priority,
      PostTask (''y'' @ progress_suffix) note_text default_priority]"

text \<open>
  A document that carries identifiers as numbers (a string identifier makes construction raise), and the tree it parses to.
\<close>

definition pushed_before_doc :: pyval where
  "pushed_before_doc =
     PList [PDict [(PStr ''a'', PList [PDict [(PStr ''id'', PInt 5)]])],
            PDict [(PStr ''b'', PList [PDict [(PStr ''c'',
                      PList [PDict [(PStr ''checklist_id'', PInt 7)]])]])]]"

definition pushed_before_tree :: task where
  "pushed_before_tree =
     Task PNone default_priority
       [Task (PStr ''a'') default_priority
         [Task (PStr ''id'') (PInt 5) [] PNone PNone] (PInt 5) PNone,
        Task (PStr ''b'') default_priority
         [Task (PStr ''c'') default_priority
           [Task (PStr ''checklist_id'') (PInt 7) [] PNone PNone] PNone (PInt 7)]
         PNone PNone]
       PNone PNone"

text \<open>
  A document with tasks without a true name below the root: an empty text entry under
  \<^verbatim>\<open>a\<close>, and an entry with the empty key, which carries an identifier. The tree it
  parses to, the tree after a push to \<open>stub_remote\<close>, and the calls of that push.
\<close>

definition mixed_doc :: pyval where
  "mixed_doc =
     PList [PDict [(PStr ''a'', PList [PStr '''', PStr ''b''])],
            PDict [(PStr '''', PList [PDict [(PStr ''id'', PInt 5)]])]]"

definition mixed_tree :: task where
  "mixed_tree =
     Task PNone default_priority
       [Task (PStr ''a'') default_priority
         [Task (PStr '''') default_priority [] PNone PNone,
          Task (PStr ''b'') default_priority [] PNone PNone]
         PNone PNone,
        Task (PStr '''') default_priority
         [Task (PStr ''id'') (PInt 5) [] PNone PNone] (PInt 5) PNone]
       PNone PNone"

definition mixed_pushed :: task where
  "mixed_pushed =
     Task PNone default_priority
       [Task (PStr ''a'') default_priority
         [Task (PStr '''') default_priority [] PNone PNone,
          Task (PStr ''b'') default_priority [] (PStr ''t2'') (PStr ''c11'')]
         (PStr ''t0'') PNone,
        Task (PStr '''') default_priority
         [Task (PStr ''id'') (PInt 5) [] (PStr ''t3'') PNone] (PInt 5) PNone]
       PNone PNone"

definition mixed_calls :: "call list" where
  "mixed_calls =
     [PostTask (''a'' @ progress_suffix) note_text default_priority,
      PostChecklist (PStr ''t0'') (PStr ''b''),
      PostTask (''b'' @ progress_suffix) note_text default_priority,
      PostTask (''id'' @ progress_suffix) note_text (PInt 5)]"

section \<open>Defects of construction and of the newness check\<close>

text \<open>
  C3. A priority outside \<^verbatim>\<open>0.5, 1, 1.5, 2\<close> must fail with the invalid-priority error on
  both ways of giving it. The \<^verbatim>\<open>{"priority": p}\<close> entry is checked; the scalar in place
  of a subtask list, as in \<^verbatim>\<open>{"name": 3}\<close>, is stored unchecked: construction succeeds
  with priority 3, and likewise with 0.
\<close>

theorem scalar_priority_unchecked:
  "Task_init PNone (PList [PDict [(PStr ''name'', PInt 3)]])
     = Inr (Task PNone default_priority
              [Task (PStr ''name'') (PInt 3) [] PNone PNone] PNone PNone)
   \<and> \<not> valid_priority (PInt 3)
   \<and> Task_init PNone (PList [PDict [(PStr ''priority'', PInt 3)]])
     = Inl (ValueError InvalidPriority)
   \<and> Task_init (PStr ''name'') (PInt 0) = Inr (Task (PStr ''name'') (PInt 0) [] PNone PNone)"
  by (simp add: valid_priority_def)

text \<open>
  C4. An \<^verbatim>\<open>{"id": s}\<close> or \<^verbatim>\<open>{"checklist_id": s}\<close> entry with a string value must be
  recorded without failing. The source records it and then falls through to the final
  \<^verbatim>\<open>raise\<close>: whatever the object and the rest of the list, construction fails with the
  unexpected-element error.
\<close>

theorem string_identifier_raises:
  "init_loop self (PDict [(PStr ''id'', PStr s)] # es) = Inl (ValueError UnexpectedElementType)
   \<and> init_loop self (PDict [(PStr ''checklist_id'', PStr s)] # es)
       = Inl (ValueError UnexpectedElementType)
   \<and> Task_init PNone (PList [PDict [(PStr ''Buy milk'', PList [PDict [(PStr ''id'', PStr ''ab12'')]])]])
       = Inl (ValueError UnexpectedElementType)"
  by simp

text \<open>
  C2. \<^verbatim>\<open>is_new\<close> must return whether every named task of the subtree has no id. As
  written it reads the attribute \<^verbatim>\<open>checklists\<close>, which no task has, so it raises
  \<^verbatim>\<open>AttributeError\<close> on every task and returns nothing.
\<close>

theorem is_new_raises: "is_new t = Inl AttributeError"
  by simp

section \<open>Construction\<close>

lemma with_priority_simps:
  "with_priority p (Inl err) = Inl err"
  "with_priority p (Inr t) = Inr (set_priority t p)"
  by (simp_all add: with_priority_def)

lemma init_loop_single:
  "k \<noteq> PStr ''priority'' \<Longrightarrow>
   init_loop self (PDict [(k, v)] # es) =
     (if is_list_int_float v then
        (case Task_init k v of
           Inl err \<Rightarrow> Inl err
         | Inr c \<Rightarrow>
             init_loop (append_child
               (if k = PStr ''id'' then setattr self ''id'' v
                else if k = PStr ''checklist_id'' then setattr self ''checklist_id'' v
                else self) c) es)
      else Inl (ValueError UnexpectedElementType))"
  by (simp add: Let_def del: setattr.simps)

lemma is_priority_entry_iff:
  "is_priority_entry e \<longleftrightarrow> (\<exists>v. e = PDict [(PStr ''priority'', v)])"
  by (cases e rule: is_priority_entry.cases) auto

lemma init_loop_skip:
  "\<not> is_str e \<Longrightarrow> \<not> is_dict e \<Longrightarrow> init_loop self (e # es) = init_loop self es"
  by (cases e) simp_all

lemma init_loop_strange:
  "length kvs \<noteq> 1 \<Longrightarrow> init_loop self (PDict kvs # es) = Inl (ValueError StrangeDict)"
proof (cases kvs)
  case Nil then show ?thesis by simp
next
  case (Cons a kvs')
  assume "length kvs \<noteq> 1"
  with Cons obtain b kvs'' where "kvs' = b # kvs''" by (cases kvs') auto
  with Cons show ?thesis by simp
qed

lemma elem_cases [case_names Str Single Strange Other]:
  obtains s where "e = PStr s"
  | k v where "e = PDict [(k, v)]"
  | kvs where "e = PDict kvs" "length kvs \<noteq> 1"
  | "\<not> is_str e" "\<not> is_dict e"
proof (cases e)
  case (PDict kvs)
  show ?thesis
  proof (cases "length kvs = 1")
    case True
    then obtain kv where "kvs = [kv]" by (cases kvs) auto
    with PDict that(2)[of "fst kv" "snd kv"] show ?thesis by simp
  next
    case False
    with PDict that(3) show ?thesis by blast
  qed
qed (use that in auto)

subsection \<open>Priority entries\<close>

lemma set_priority_append_child:
  "append_child (set_priority self p) c = set_priority (append_child self c) p"
  by (cases self) simp

lemma set_priority_setattr:
  "setattr (set_priority self p) k v = set_priority (setattr self k v) p"
  by (cases self) simp

lemma set_priority_twice: "set_priority (set_priority t p) q = set_priority t q"
  by (cases t) simp

lemma with_priority_twice: "with_priority q (with_priority p r) = with_priority q r"
  by (cases r) (simp_all add: with_priority_def set_priority_twice)

lemma init_loop_set_priority:
  "\<forall>e\<in>set es. \<not> is_priority_entry e \<Longrightarrow>
   init_loop (set_priority self p) es = with_priority p (init_loop self es)"
proof (induction es arbitrary: self)
  case Nil
  show ?case by (simp add: with_priority_def)
next
  case (Cons e es)
  then have IH: "\<And>s. init_loop (set_priority s p) es = with_priority p (init_loop s es)"
    by simp
  from Cons.prems have ne: "\<not> is_priority_entry e" by simp
  show ?case
  proof (cases e rule: elem_cases)
    case (Str s)
    then show ?thesis using IH by (simp add: set_priority_append_child)
  next
    case (Single k v)
    with ne have k: "k \<noteq> PStr ''priority''" by simp
    show ?thesis
    proof (cases "is_list_int_float v")
      case False
      with k show ?thesis unfolding Single
        by (simp add: init_loop_single with_priority_simps del: init_loop.simps)
    next
      case True
      show ?thesis
      proof (cases "Task_init k v")
        case (Inl err)
        with k True show ?thesis unfolding Single
          by (simp add: init_loop_single with_priority_simps del: init_loop.simps)
      next
        case (Inr c)
        with k True show ?thesis unfolding Single
          by (simp add: init_loop_single IH set_priority_append_child set_priority_setattr
                   del: init_loop.simps setattr.simps)
      qed
    qed
  next
    case (Strange kvs)
    then show ?thesis by (simp add: init_loop_strange with_priority_def)
  next
    case Other
    then show ?thesis using IH by (simp add: init_loop_skip)
  qed
qed

lemma priority_append_child: "priority (append_child self c) = priority self"
  by (cases self) simp

lemma priority_setattr: "priority (setattr self k v) = priority self"
  by (cases self) simp

lemma priority_set_priority: "priority (set_priority self v) = v"
  by (cases self) simp

lemma last_priority_Cons:
  "last_priority p0 (e # es) =
     (if is_priority_entry e then last_priority (entry_value e) es else last_priority p0 es)"
  by (simp add: last_priority_def)

lemma init_loop_priority_entries:
  "\<forall>e\<in>set es. is_priority_entry e \<longrightarrow> valid_priority (entry_value e) \<Longrightarrow>
   init_loop self es =
     with_priority (last_priority (priority self) es)
       (init_loop self (filter (\<lambda>e. \<not> is_priority_entry e) es))"
proof (induction es arbitrary: self)
  case Nil
  show ?case by (cases self) (simp add: with_priority_def last_priority_def)
next
  case (Cons e es)
  then have IH: "\<And>s. init_loop s es =
     with_priority (last_priority (priority s) es)
       (init_loop s (filter (\<lambda>e. \<not> is_priority_entry e) es))"
    by simp
  show ?case
  proof (cases e rule: elem_cases)
    case (Str s)
    then show ?thesis using IH[of "append_child self (Task (PStr s) default_priority [] PNone PNone)"]
      by (simp add: last_priority_Cons priority_append_child)
  next
    case (Single k v)
    show ?thesis
    proof (cases "k = PStr ''priority''")
      case True
      with Single Cons.prems have v: "valid_priority v" by simp
      have "init_loop self (e # es) = init_loop (set_priority self v) es"
        using Single True v by simp
      also have "\<dots> = with_priority (last_priority v es)
           (init_loop (set_priority self v) (filter (\<lambda>e. \<not> is_priority_entry e) es))"
        using IH[of "set_priority self v"] by (simp add: priority_set_priority)
      also have "\<dots> = with_priority (last_priority v es)
           (init_loop self (filter (\<lambda>e. \<not> is_priority_entry e) es))"
        by (simp add: init_loop_set_priority with_priority_twice)
      finally show ?thesis using Single True by (simp add: last_priority_Cons)
    next
      case False
      note k = False
      show ?thesis
      proof (cases "is_list_int_float v")
        case False
        with k show ?thesis unfolding Single
          by (simp add: init_loop_single with_priority_simps last_priority_Cons
                   del: init_loop.simps)
      next
        case True
        show ?thesis
        proof (cases "Task_init k v")
          case (Inl err)
          with k True show ?thesis unfolding Single
            by (simp add: init_loop_single with_priority_simps last_priority_Cons
                     del: init_loop.simps)
        next
          case (Inr c)
          have "init_loop self (PDict [(k, v)] # es) =
                init_loop (append_child
                  (if k = PStr ''id'' then setattr self ''id'' v
                   else if k = PStr ''checklist_id'' then setattr self ''checklist_id'' v
                   else self) c) es"
            using k True Inr by (simp add: init_loop_single del: init_loop.simps setattr.simps)
          also have "\<dots> = with_priority (last_priority (priority self) es)
                (init_loop (append_child
                  (if k = PStr ''id'' then setattr self ''id'' v
                   else if k = PStr ''checklist_id'' then setattr self ''checklist_id'' v
                   else self) c) (filter (\<lambda>e. \<not> is_priority_entry e) es))"
            by (subst IH) (simp add: priority_append_child priority_setattr del: setattr.simps)
          finally show ?thesis unfolding Single using k True Inr
            by (simp add: init_loop_single last_priority_Cons del: init_loop.simps setattr.simps)
        qed
      qed
    qed
  next
    case (Strange kvs)
    then have "\<not> is_priority_entry e" by (auto simp: is_priority_entry_iff)
    with Strange show ?thesis by (simp add: init_loop_strange with_priority_def)
  next
    case Other
    then have "\<not> is_priority_entry e" by (auto simp: is_priority_entry_iff)
    with Other show ?thesis using IH by (simp add: init_loop_skip last_priority_Cons)
  qed
qed

text \<open>
  C9. When the sequence for a task contains priority entries, all with valid values, they
  raise nothing and create no child: if construction succeeds on the sequence without
  them, it succeeds on the whole sequence, with the same result except that the priority
  is the value of the last priority entry.
\<close>

theorem last_priority_entry_wins:
  assumes "\<forall>e\<in>set es. is_priority_entry e \<longrightarrow> valid_priority (entry_value e)"
      and "filter is_priority_entry es \<noteq> []"
      and "Task_init nm (PList (filter (\<lambda>e. \<not> is_priority_entry e) es)) = Inr t0"
  shows "Task_init nm (PList es)
           = Inr (set_priority t0 (entry_value (last (filter is_priority_entry es))))"
  using assms init_loop_priority_entries[OF assms(1), of "Task nm default_priority [] PNone PNone"]
  by (simp add: with_priority_def last_priority_def)

theorem last_priority_entry_wins_witness:
  "Task_init (PStr ''t'')
     (PList [PDict [(PStr ''priority'', PInt 2)], PStr ''a'',
             PDict [(PStr ''priority'', PFloat (Finite (1/2)))]])
   = Inr (Task (PStr ''t'') (PFloat (Finite (1/2)))
            [Task (PStr ''a'') default_priority [] PNone PNone] PNone PNone)"
  using last_priority_entry_wins
    [of "[PDict [(PStr ''priority'', PInt 2)], PStr ''a'',
          PDict [(PStr ''priority'', PFloat (Finite (1/2)))]]"
        "PStr ''t''" "Task (PStr ''t'') default_priority
            [Task (PStr ''a'') default_priority [] PNone PNone] PNone PNone"]
  by (simp add: valid_priority_def)

subsection \<open>Skipped elements and raising elements\<close>

lemma raising_strange: "length kvs \<noteq> 1 \<Longrightarrow> raising (PDict kvs)"
  by (cases "PDict kvs" rule: raising.cases) auto

lemma raising_other: "\<not> is_str e \<Longrightarrow> \<not> is_dict e \<Longrightarrow> \<not> raising e"
  by (cases e) auto

lemma raising_single:
  "k \<noteq> PStr ''priority'' \<Longrightarrow>
   raising (PDict [(k, v)]) =
     (\<not> is_list_int_float v \<or> (case v of PList es \<Rightarrow> list_ex raising es | _ \<Rightarrow> False))"
  by (cases v) auto

lemma init_raises_iff:
  "isl (Task_init nm data) = (case data of PList es \<Rightarrow> list_ex raising es | _ \<Rightarrow> False)"
  "isl (init_loop self es) = list_ex raising es"
proof (induction nm data and self es rule: Task_init_init_loop.induct)
  case (5 self k v es)
  show ?case
  proof (cases "k = PStr ''priority''")
    case True
    with 5 show ?thesis by simp
  next
    case False
    note k = this
    show ?thesis
    proof (cases "is_list_int_float v")
      case False
      with k show ?thesis
        by (simp add: init_loop_single raising_single del: init_loop.simps raising.simps)
    next
      case True
      note ilf = this
      have A: "isl (Task_init k v) = (case v of PList es \<Rightarrow> list_ex raising es | _ \<Rightarrow> False)"
        by (rule 5(2)[OF k refl ilf])
      show ?thesis
      proof (cases "Task_init k v")
        case (Inl err)
        with A k ilf show ?thesis
          by (simp add: init_loop_single raising_single del: init_loop.simps raising.simps)
      next
        case (Inr c)
        have B: "isl (init_loop (append_child
                  (if k = PStr ''id'' then setattr self ''id'' v
                   else if k = PStr ''checklist_id'' then setattr self ''checklist_id'' v
                   else self) c) es) = list_ex raising es"
          by (rule 5(3)[OF k refl ilf Inr])
        from Inr A have "\<not> (case v of PList es \<Rightarrow> list_ex raising es | _ \<Rightarrow> False)"
          by simp
        with k ilf have "\<not> raising (PDict [(k, v)])"
          by (simp add: raising_single del: raising.simps)
        moreover have "init_loop self (PDict [(k, v)] # es) = init_loop (append_child
                  (if k = PStr ''id'' then setattr self ''id'' v
                   else if k = PStr ''checklist_id'' then setattr self ''checklist_id'' v
                   else self) c) es"
          using k ilf Inr by (simp add: init_loop_single del: init_loop.simps setattr.simps)
        ultimately show ?thesis using B by (simp del: init_loop.simps setattr.simps raising.simps)
      qed
    qed
  qed
qed simp_all

lemma init_loop_filter:
  "init_loop self (filter (\<lambda>e. is_str e \<or> is_dict e) es) = init_loop self es"
proof (induction es arbitrary: self)
  case Nil show ?case by simp
next
  case (Cons e es)
  show ?case
  proof (cases e rule: elem_cases)
    case (Str s) with Cons show ?thesis by simp
  next
    case (Single k v)
    show ?thesis
    proof (cases "k = PStr ''priority''")
      case True with Single Cons show ?thesis by simp
    next
      case False with Single Cons show ?thesis
        by (simp add: init_loop_single del: init_loop.simps setattr.simps cong: sum.case_cong)
    qed
  next
    case (Strange kvs) then show ?thesis by (simp add: init_loop_strange)
  next
    case Other with Cons show ?thesis by (simp add: init_loop_skip)
  qed
qed

text \<open>
  C10 (as amended). An element that is neither a string nor a mapping is skipped:
  construction gives the same result, or the same error, as on the sequence without such
  elements. Construction raises exactly when some element is raising: a mapping whose
  number of keys is not one (an empty mapping too), a priority entry with an invalid value,
  or a single-key mapping with another key whose value is no list, int or float, at the
  top or inside a nested subtask list.
\<close>

theorem non_entries_skipped:
  "Task_init nm (PList es) = Task_init nm (PList (filter (\<lambda>e. is_str e \<or> is_dict e) es))
   \<and> ((\<exists>err. Task_init nm (PList es) = Inl err) \<longleftrightarrow> list_ex raising es)"
proof -
  have "isl (Task_init nm (PList es)) = list_ex raising es"
    using init_raises_iff(1)[of nm "PList es"] by simp
  then show ?thesis by (auto simp: init_loop_filter isl_def)
qed

theorem non_entries_skipped_witness:
  "Task_init PNone (PList [PInt 7, PStr ''a'', PList [PStr ''b''], PNone])
     = Task_init PNone (PList [PStr ''a''])
   \<and> Task_init PNone (PList [PInt 7, PStr ''a'', PList [PStr ''b''], PNone])
     = Inr (Task PNone default_priority [Task (PStr ''a'') default_priority [] PNone PNone] PNone PNone)
   \<and> list_ex raising [PStr ''a'', PDict [(PStr ''b'', PList [PDict []])]]
   \<and> (\<exists>err. Task_init PNone (PList [PStr ''a'', PDict [(PStr ''b'', PList [PDict []])]]) = Inl err)"
  using non_entries_skipped[of PNone "[PInt 7, PStr ''a'', PList [PStr ''b''], PNone]"]
        non_entries_skipped[of PNone "[PStr ''a'', PDict [(PStr ''b'', PList [PDict []])]]"]
  by simp

text \<open>
  With "a multi-key mapping" for the first case the statement fails: the empty mapping
  has no key, and construction raises on it.
\<close>

theorem empty_mapping_raises:
  "Task_init PNone (PList [PDict []]) = Inl (ValueError StrangeDict)
   \<and> \<not> list_ex raising_multi_key [PDict []]"
  by simp

section \<open>Round trip\<close>

lemma valid_priority_truthy: "valid_priority p \<Longrightarrow> truthy p"
  by (cases p rule: truthy.cases) (auto simp: valid_priority_def split: if_splits)

lemma plain_name_facts:
  "plain_name n \<Longrightarrow> truthy n \<and> n \<noteq> PStr ''priority'' \<and> n \<noteq> PStr ''id'' \<and> n \<noteq> PStr ''checklist_id''"
  by (cases n) auto

lemma init_loop_entries:
  assumes "list_all plain cl"
      and "\<And>c. c \<in> set cl \<Longrightarrow> Task_init (name c) (PList (iter_task c)) = Inr c"
  shows "init_loop (Task n p cl0 i ci) (concat (map entry cl)) = Inr (Task n p (cl0 @ cl) i ci)"
  using assms
proof (induction cl arbitrary: cl0)
  case Nil
  show ?case by simp
next
  case (Cons c cl)
  from Cons.prems(1) have pc: "plain c" and pcl: "list_all plain cl" by simp_all
  from pc have nm: "plain_name (name c)" by (cases c) simp
  note nf = plain_name_facts[OF nm]
  have rc: "Task_init (name c) (PList (iter_task c)) = Inr c" using Cons.prems(2) by simp
  have "init_loop (Task n p cl0 i ci) (concat (map entry (c # cl)))
        = init_loop (Task n p cl0 i ci) (PDict [(name c, PList (iter_task c))] # concat (map entry cl))"
    using nf by (simp add: entry_def)
  also have "\<dots> = init_loop (Task n p (cl0 @ [c]) i ci) (concat (map entry cl))"
    using nf rc by (simp add: init_loop_single del: init_loop.simps Task_init.simps)
  also have "\<dots> = Inr (Task n p ((cl0 @ [c]) @ cl) i ci)"
    using Cons.IH[OF pcl, of "cl0 @ [c]"] Cons.prems(2) by simp
  finally show ?case by simp
qed

lemma iter_task_entries:
  "iter_task (Task n p cl i ci) =
     (if truthy n then
        (if truthy i then [PDict [(PStr ''id'', i)]] else []) @
        (if truthy ci then [PDict [(PStr ''checklist_id'', ci)]] else []) @
        (if truthy p then [PDict [(PStr ''priority'', p)]] else [])
      else []) @ concat (map entry cl)"
  by (simp add: entry_def[abs_def])

lemma plain_roundtrip: "plain t \<Longrightarrow> Task_init (name t) (PList (iter_task t)) = Inr t"
proof (induction t)
  case (Task n p cl i ci)
  from Task.prems have nm: "plain_name n" and vp: "valid_priority p"
    and ids: "i = PNone" "ci = PNone" and pcl: "list_all plain cl" by simp_all
  have IH: "\<And>c. c \<in> set cl \<Longrightarrow> Task_init (name c) (PList (iter_task c)) = Inr c"
    using Task.IH pcl by (simp add: list_all_iff)
  have "iter_task (Task n p cl i ci) = PDict [(PStr ''priority'', p)] # concat (map entry cl)"
    using plain_name_facts[OF nm] valid_priority_truthy[OF vp] ids
    by (simp add: iter_task_entries del: iter_task.simps)
  then show ?case
    using vp init_loop_entries[OF pcl IH, of n p "[]" PNone PNone] ids
    by (simp del: iter_task.simps)
qed

lemma example_parse: "Task_init PNone example_doc = Inr example_tree"
  by (simp add: example_doc_def example_tree_def valid_priority_def)

text \<open>
  C1 (as amended). Round trip: for every tree with a plain root, parsing the output of
  serialization, \<^verbatim>\<open>Task(data=list(t))\<close>, succeeds and gives back the same tree: same
  names, priorities, children in the same order, and no identifiers.
\<close>

theorem roundtrip_plain_tree:
  assumes "plain_root t"
  shows "Task_init PNone (PList (iter_task t)) = Inr t"
proof (cases t)
  case (Task n p cl i ci)
  with assms have f: "n = PNone" "p = default_priority" "i = PNone" "ci = PNone"
    and pcl: "list_all plain cl" by (simp_all add: plain_root_def)
  have IH: "\<And>c. c \<in> set cl \<Longrightarrow> Task_init (name c) (PList (iter_task c)) = Inr c"
    using pcl plain_roundtrip by (simp add: list_all_iff)
  have "iter_task t = concat (map entry cl)"
    unfolding Task using f by (simp add: iter_task_entries del: iter_task.simps)
  then show ?thesis
    using init_loop_entries[OF pcl IH, of PNone default_priority "[]" PNone PNone] f Task
    by (simp del: iter_task.simps)
qed

theorem roundtrip_plain_tree_witness:
  "plain_root example_tree \<and> Task_init PNone example_doc = Inr example_tree
   \<and> Task_init PNone (PList (iter_task example_tree)) = Inr example_tree"
proof -
  have p: "plain_root example_tree"
    by (simp add: plain_root_def example_tree_def valid_priority_def)
  from roundtrip_plain_tree[OF p] p example_parse show ?thesis by simp
qed

text \<open>
  The round trip does not hold for every tree built from text and priority entries:
  \<^item> \<^verbatim>\<open>["", "a"]\<close>: the child with the empty name is not serialized, one child comes back;
  \<^item> \<^verbatim>\<open>[{"priority": 2}, "a"]\<close>: the priority of the unnamed root is not serialized, the
    default comes back;
  \<^item> \<^verbatim>\<open>["priority"]\<close>: the child named \<^verbatim>\<open>priority\<close> is serialized as a priority entry,
    and parsing it raises;
  \<^item> \<^verbatim>\<open>["id"]\<close>: the child named \<^verbatim>\<open>id\<close> is serialized as an identifier entry, and the
    root comes back with an identifier.
\<close>

theorem roundtrip_counterexample:
  "Task_init PNone (PList [PStr '''', PStr ''a''])
     = Inr (Task PNone default_priority
             [Task (PStr '''') default_priority [] PNone PNone,
              Task (PStr ''a'') default_priority [] PNone PNone] PNone PNone)
   \<and> Task_init PNone (PList (iter_task (Task PNone default_priority
             [Task (PStr '''') default_priority [] PNone PNone,
              Task (PStr ''a'') default_priority [] PNone PNone] PNone PNone)))
     = Inr (Task PNone default_priority
             [Task (PStr ''a'') default_priority [] PNone PNone] PNone PNone)
   \<and> Task_init PNone (PList [PDict [(PStr ''priority'', PInt 2)], PStr ''a''])
     = Inr (Task PNone (PInt 2) [Task (PStr ''a'') default_priority [] PNone PNone] PNone PNone)
   \<and> Task_init PNone (PList (iter_task
        (Task PNone (PInt 2) [Task (PStr ''a'') default_priority [] PNone PNone] PNone PNone)))
     = Inr (Task PNone default_priority
             [Task (PStr ''a'') default_priority [] PNone PNone] PNone PNone)
   \<and> Task_init PNone (PList [PStr ''priority''])
     = Inr (Task PNone default_priority
             [Task (PStr ''priority'') default_priority [] PNone PNone] PNone PNone)
   \<and> Task_init PNone (PList (iter_task (Task PNone default_priority
             [Task (PStr ''priority'') default_priority [] PNone PNone] PNone PNone)))
     = Inl (ValueError InvalidPriority)
   \<and> Task_init PNone (PList [PStr ''id''])
     = Inr (Task PNone default_priority
             [Task (PStr ''id'') default_priority [] PNone PNone] PNone PNone)
   \<and> Task_init PNone (PList (iter_task (Task PNone default_priority
             [Task (PStr ''id'') default_priority [] PNone PNone] PNone PNone)))
     = Inr (Task PNone default_priority
             [Task (PStr ''id'') default_priority [] PNone PNone]
             (PList [PDict [(PStr ''priority'', default_priority)]]) PNone)"
  by (simp add: valid_priority_def)

section \<open>Push\<close>

lemma push_induct [case_names named unnamed Nil Cons]:
  assumes named: "\<And>api n p cl i ci s.
      \<lbrakk>truthy n;
       \<And>line resp s1 v cl1 s2.
         \<lbrakk>task_text n = Inr line;
          request api (PostTask line note_text p) s = (Inr resp, s1);
          getitem_str resp ''id'' = Inr v;
          push_items api v 0 cl s1 = (None, cl1, s2)\<rbrakk> \<Longrightarrow> Q api cl1 s2\<rbrakk>
      \<Longrightarrow> P api (Task n p cl i ci) s"
    and unnamed: "\<And>api n p cl i ci s. \<lbrakk>\<not> truthy n; Q api cl s\<rbrakk> \<Longrightarrow> P api (Task n p cl i ci) s"
    and nil: "\<And>api s. Q api [] s"
    and cons: "\<And>api t ts s.
      \<lbrakk>P api t s; \<And>t' s1. push api t s = (None, t', s1) \<Longrightarrow> Q api ts s1\<rbrakk>
      \<Longrightarrow> Q api (t # ts) s"
  shows "P api t s" and "Q api ts s"
proof (induction api t s and api ts s rule: push_push_children.induct)
  case (1 api n p cl i ci s)
  show ?case
  proof (cases "truthy n")
    case True
    show ?thesis
    proof (rule named[OF True])
      fix line resp s1 v cl1 s2
      assume "task_text n = Inr line"
        "request api (PostTask line note_text p) s = (Inr resp, s1)"
        "getitem_str resp ''id'' = Inr v"
        "push_items api v 0 cl s1 = (None, cl1, s2)"
      then show "Q api cl1 s2"
        using 1(1)[OF True, of line "Inr resp" s1 resp v None "(cl1, s2)" cl1 s2] by simp
    qed
  next
    case False
    then show ?thesis using 1(2) unnamed by simp
  qed
next
  case (2 api s)
  show ?case by (rule nil)
next
  case (3 api t ts s)
  show ?case
  proof (rule cons)
    show "P api t s" by (rule 3(1))
  next
    fix t' s1 assume "push api t s = (None, t', s1)"
    then show "Q api ts s1" using 3(2)[of None "(t', s1)" t' s1] by simp
  qed
qed

lemma push_named_cases [consumes 2, case_names text_err post_err id_err items_err ok]:
  assumes "push api (Task n p cl i ci) s = (r, t', s')" and "truthy n"
  obtains
    err where "task_text n = Inl err" "r = Some err" "t' = Task n p cl i ci" "s' = s"
  | line err where "task_text n = Inr line"
      "request api (PostTask line note_text p) s = (Inl err, s')"
      "r = Some err" "t' = Task n p cl i ci"
  | line resp err where "task_text n = Inr line"
      "request api (PostTask line note_text p) s = (Inr resp, s')"
      "getitem_str resp ''id'' = Inl err" "r = Some err" "t' = Task n p cl i ci"
  | line resp s1 v err cl1 where "task_text n = Inr line"
      "request api (PostTask line note_text p) s = (Inr resp, s1)"
      "getitem_str resp ''id'' = Inr v"
      "push_items api v 0 cl s1 = (Some err, cl1, s')" "r = Some err" "t' = Task n p cl1 v ci"
  | line resp s1 v cl1 s2 cl2 where "task_text n = Inr line"
      "request api (PostTask line note_text p) s = (Inr resp, s1)"
      "getitem_str resp ''id'' = Inr v"
      "push_items api v 0 cl s1 = (None, cl1, s2)"
      "push_children api cl1 s2 = (r, cl2, s')" "t' = Task n p cl2 v ci"
  using assms by (auto split: sum.splits prod.splits option.splits)

lemma push_unnamed:
  assumes "push api (Task n p cl i ci) s = (r, t', s')" and "\<not> truthy n"
  obtains cl' where "push_children api cl s = (r, cl', s')" "t' = Task n p cl' i ci"
  using assms by (auto split: prod.splits)

lemma push_children_Cons_cases [consumes 1, case_names stop continue]:
  assumes "push_children api (t # ts) s = (r, ts', s')"
  obtains
    err t' where "push api t s = (Some err, t', s')" "r = Some err" "ts' = t' # ts"
  | t' s1 ts1 where "push api t s = (None, t', s1)" "push_children api ts s1 = (r, ts1, s')"
      "ts' = t' # ts1"
  using assms by (auto split: prod.splits option.splits)

lemma push_items_Cons_cases [consumes 1, case_names unnamed post_err id_err ok]:
  assumes "push_items api sid k (t # ts) s = (r, ts', s')"
  obtains
    ts1 where "\<not> truthy (name t)" "push_items api sid k ts s = (r, ts1, s')" "ts' = t # ts1"
  | err where "truthy (name t)" "request api (PostChecklist sid (name t)) s = (Inl err, s')"
      "r = Some err" "ts' = t # ts"
  | resp err where "truthy (name t)"
      "request api (PostChecklist sid (name t)) s = (Inr resp, s')"
      "item_id resp (k + 1) = Inl err" "r = Some err" "ts' = t # ts"
  | resp s1 v ts1 where "truthy (name t)"
      "request api (PostChecklist sid (name t)) s = (Inr resp, s1)"
      "item_id resp (k + 1) = Inr v" "push_items api sid (k + 1) ts s1 = (r, ts1, s')"
      "ts' = set_checklist_id t v # ts1"
  using assms by (auto split: sum.splits prod.splits if_splits)

lemma request_calls: "request api c s = (x, s') \<Longrightarrow> snd s' = snd s @ [c]"
  by (cases s) (auto split: prod.splits)

lemma example_push:
  "push stub_remote example_tree (0, []) = (None, example_pushed, (6, example_calls))"
  by (simp add: example_tree_def example_pushed_def example_calls_def item_id_def digit_def)

subsection \<open>What push leaves unchanged\<close>

lemma shape_set_checklist_id [simp]: "shape (set_checklist_id t v) = shape t"
  by (cases t) simp

lemma id_task_set_checklist_id [simp]: "id_task (set_checklist_id t v) = id_task t"
  by (cases t) simp

lemma name_set_checklist_id [simp]: "name (set_checklist_id t v) = name t"
  by (cases t) simp

lemma push_items_frame:
  "push_items api sid k ts s = (r, ts', s') \<Longrightarrow>
   map shape ts' = map shape ts \<and> map id_task ts' = map id_task ts"
proof (induction ts arbitrary: k s r ts' s')
  case Nil then show ?case by simp
next
  case (Cons t ts)
  from Cons.prems show ?case
    by (cases rule: push_items_Cons_cases) (use Cons.IH in auto)
qed

lemma push_frame_aux:
  "\<forall>r t' s'. push api t s = (r, t', s') \<longrightarrow>
     shape t' = shape t \<and> checklist_id t' = checklist_id t \<and>
     (\<not> truthy (name t) \<longrightarrow> id_task t' = id_task t)"
  "\<forall>r ts' s'. push_children api ts s = (r, ts', s') \<longrightarrow>
     map shape ts' = map shape ts \<and> map checklist_id ts' = map checklist_id ts"
proof (induction api t s and api ts s rule: push_induct)
  case (named api n p cl i ci s)
  show ?case
  proof (intro allI impI)
    fix r t' s' assume run: "push api (Task n p cl i ci) s = (r, t', s')"
    from run named(1) show "shape t' = shape (Task n p cl i ci) \<and>
         checklist_id t' = checklist_id (Task n p cl i ci) \<and>
         (\<not> truthy (name (Task n p cl i ci)) \<longrightarrow> id_task t' = id_task (Task n p cl i ci))"
    proof (cases rule: push_named_cases)
      case (items_err line resp s1 v err cl1)
      with push_items_frame[OF items_err(4)] named(1) show ?thesis by simp
    next
      case (ok line resp s1 v cl1 s2 cl2)
      from named(2)[OF ok(1-4)] ok(5) have "map shape cl2 = map shape cl1" by blast
      with push_items_frame[OF ok(4)] ok named(1) show ?thesis by simp
    qed (use named(1) in simp_all)
  qed
next
  case (unnamed api n p cl i ci s)
  show ?case
  proof (intro allI impI)
    fix r t' s' assume run: "push api (Task n p cl i ci) s = (r, t', s')"
    from run unnamed(1) obtain cl' where "push_children api cl s = (r, cl', s')"
      "t' = Task n p cl' i ci" by (rule push_unnamed)
    with unnamed(2) show "shape t' = shape (Task n p cl i ci) \<and>
         checklist_id t' = checklist_id (Task n p cl i ci) \<and>
         (\<not> truthy (name (Task n p cl i ci)) \<longrightarrow> id_task t' = id_task (Task n p cl i ci))"
      by simp
  qed
next
  case (Nil api s)
  show ?case by simp
next
  case (Cons api t ts s)
  show ?case
  proof (intro allI impI)
    fix r ts' s' assume run: "push_children api (t # ts) s = (r, ts', s')"
    from run show "map shape ts' = map shape (t # ts) \<and>
         map checklist_id ts' = map checklist_id (t # ts)"
    proof (cases rule: push_children_Cons_cases)
      case (stop err t')
      with Cons(1) show ?thesis by simp
    next
      case (continue t' s1 ts1)
      with Cons(1) Cons(2)[OF continue(1)] show ?thesis by simp
    qed
  qed
qed

lemma kept_set_checklist_id:
  "truthy (name t) \<Longrightarrow> kept True (set_checklist_id t v) = kept True t"
  by (cases t) simp

lemma push_items_kept:
  "push_items api sid k ts s = (r, ts', s') \<Longrightarrow> map (kept True) ts' = map (kept True) ts"
proof (induction ts arbitrary: k s r ts' s')
  case Nil then show ?case by simp
next
  case (Cons t ts)
  from Cons.prems show ?case
    by (cases rule: push_items_Cons_cases) (use Cons.IH in \<open>auto simp: kept_set_checklist_id\<close>)
qed

lemma push_kept_aux:
  "\<forall>r t' s' b. push api t s = (r, t', s') \<longrightarrow> kept b t' = kept b t"
  "\<forall>r ts' s' b. push_children api ts s = (r, ts', s') \<longrightarrow> map (kept b) ts' = map (kept b) ts"
proof (induction api t s and api ts s rule: push_induct)
  case (named api n p cl i ci s)
  show ?case
  proof (intro allI impI)
    fix r t' s' b assume run: "push api (Task n p cl i ci) s = (r, t', s')"
    from run named(1) show "kept b t' = kept b (Task n p cl i ci)"
    proof (cases rule: push_named_cases)
      case (items_err line resp s1 v err cl1)
      with push_items_kept[OF items_err(4)] named(1) show ?thesis by simp
    next
      case (ok line resp s1 v cl1 s2 cl2)
      from named(2)[OF ok(1-4)] ok(5) have "map (kept True) cl2 = map (kept True) cl1" by blast
      with push_items_kept[OF ok(4)] ok named(1) show ?thesis by simp
    qed (use named(1) in simp_all)
  qed
next
  case (unnamed api n p cl i ci s)
  show ?case
  proof (intro allI impI)
    fix r t' s' b assume run: "push api (Task n p cl i ci) s = (r, t', s')"
    from run unnamed(1) obtain cl' where "push_children api cl s = (r, cl', s')"
      "t' = Task n p cl' i ci" by (rule push_unnamed)
    with unnamed show "kept b t' = kept b (Task n p cl i ci)" by simp
  qed
next
  case (Nil api s)
  show ?case by simp
next
  case (Cons api t ts s)
  show ?case
  proof (intro allI impI)
    fix r ts' s' b assume run: "push_children api (t # ts) s = (r, ts', s')"
    from run show "map (kept b) ts' = map (kept b) (t # ts)"
    proof (cases rule: push_children_Cons_cases)
      case (stop err t')
      with Cons(1) show ?thesis by simp
    next
      case (continue t' s1 ts1)
      with Cons(1) Cons(2)[OF continue(1)] show ?thesis by simp
    qed
  qed
qed

lemma shape_kept: "shape (kept b t) = shape t"
  by (induction t arbitrary: b) simp

lemma mixed_parse: "Task_init PNone mixed_doc = Inr mixed_tree"
  by (simp add: mixed_doc_def mixed_tree_def)

lemma mixed_push:
  "push stub_remote mixed_tree (0, []) = (None, mixed_pushed, (4, mixed_calls))"
  by (simp add: mixed_tree_def mixed_pushed_def mixed_calls_def item_id_def digit_def)

text \<open>
  C8 (as amended). Whatever the remote answers, and also when push stops at an exception,
  push changes only identifiers it has an assignment for. Every task's name, priority and
  checklist (same children, same order) are unchanged; the \<^verbatim>\<open>id\<close> of every task
  without a true name, anywhere in the tree, is unchanged; and the \<^verbatim>\<open>checklist_id\<close> is
  unchanged of the task push is called on, of every task without a true name, and of
  every child of a task without a true name.
\<close>

theorem push_frame:
  assumes "push api t s = (r, t', s')"
  shows "kept False t' = kept False t \<and> shape t' = shape t"
proof -
  from assms push_kept_aux(1) have k: "kept False t' = kept False t" by blast
  then have "shape (kept False t') = shape (kept False t)" by simp
  then have "shape t' = shape t" by (simp only: shape_kept)
  with k show ?thesis by simp
qed

theorem push_frame_witness:
  "Task_init PNone mixed_doc = Inr mixed_tree
   \<and> push stub_remote mixed_tree (0, []) = (None, mixed_pushed, (4, mixed_calls))
   \<and> kept False mixed_pushed = kept False mixed_tree
   \<and> shape mixed_pushed = shape mixed_tree
   \<and> kept False mixed_tree =
       Task PNone default_priority
         [Task (PStr ''a'') default_priority
           [Task (PStr '''') default_priority [] PNone PNone,
            Task (PStr ''b'') default_priority [] PNone PNone]
           PNone PNone,
          Task (PStr '''') default_priority
           [Task (PStr ''id'') (PInt 5) [] PNone PNone] (PInt 5) PNone]
         PNone PNone"
  using push_frame[OF mixed_push] mixed_parse mixed_push
  by (simp add: mixed_tree_def)

text \<open>
  Push does not keep an identifier that is already there. In the tree parsed from
  \<^verbatim>\<open>[{"a": [{"id": 5}]}, {"b": [{"c": [{"checklist_id": 7}]}]}]\<close> task \<^verbatim>\<open>a\<close> has id 5
  and task \<^verbatim>\<open>c\<close> has checklist_id 7; after the push \<^verbatim>\<open>a\<close> has the id and \<^verbatim>\<open>c\<close>
  the checklist_id that the remote returned.
\<close>

theorem push_overwrites_identifiers:
  "Task_init PNone pushed_before_doc = Inr pushed_before_tree
   \<and> fst (push stub_remote pushed_before_tree (0, [])) = None
   \<and> fst (snd (push stub_remote pushed_before_tree (0, []))) =
     Task PNone default_priority
       [Task (PStr ''a'') default_priority
         [Task (PStr ''id'') (PInt 5) [] (PStr ''t2'') (PStr ''c11'')] (PStr ''t0'') PNone,
        Task (PStr ''b'') default_priority
         [Task (PStr ''c'') default_priority
           [Task (PStr ''checklist_id'') (PInt 7) [] (PStr ''t7'') (PStr ''c61'')]
           (PStr ''t5'') (PStr ''c41'')]
         (PStr ''t3'') PNone]
       PNone PNone"
  by (simp add: pushed_before_doc_def pushed_before_tree_def item_id_def digit_def)

subsection \<open>The order of the calls\<close>

lemma follows_none: "follows cs cs (Some err) pl"
  by (simp add: follows_def)

lemma follows_nil: "follows cs cs r []"
  by (simp add: follows_def)

lemma follows_stop: "follows cs cs' (Some err) pl \<Longrightarrow> follows cs cs' (Some err') (pl @ pl')"
  by (auto simp: follows_def prefix_def)

lemma follows_seq:
  "follows cs cs1 None pl \<Longrightarrow> follows cs1 cs2 r pl' \<Longrightarrow> follows cs cs2 r (pl @ pl')"
  by (auto simp: follows_def prefix_def)

lemma follows_call: "follows cs (cs @ [c]) r [label c]"
  by (simp add: follows_def)

lemma push_items_follows:
  "push_items api sid k ts s = (r, ts', s') \<Longrightarrow>
   follows (snd s) (snd s') r (map (\<lambda>t. ItemCall (name t)) (named_children ts))"
proof (induction ts arbitrary: k s r ts' s')
  case Nil
  then show ?case by (simp add: follows_nil named_children_def)
next
  case (Cons t ts)
  from Cons.prems show ?case
  proof (cases rule: push_items_Cons_cases)
    case (unnamed ts1)
    with Cons.IH show ?thesis by (simp add: named_children_def)
  next
    case (post_err err)
    from request_calls[OF post_err(2)] post_err
      follows_stop[OF follows_call[of "snd s" "PostChecklist sid (name t)" "Some err"],
                   of err "map (\<lambda>t. ItemCall (name t)) (named_children ts)"]
    show ?thesis by (simp add: named_children_def)
  next
    case (id_err resp err)
    from request_calls[OF id_err(2)] id_err
      follows_stop[OF follows_call[of "snd s" "PostChecklist sid (name t)" "Some err"],
                   of err "map (\<lambda>t. ItemCall (name t)) (named_children ts)"]
    show ?thesis by (simp add: named_children_def)
  next
    case (ok resp s1 v ts1)
    from request_calls[OF ok(2)]
    have "follows (snd s) (snd s1) None [ItemCall (name t)]"
      using follows_call[of "snd s" "PostChecklist sid (name t)" None] by simp
    from follows_seq[OF this Cons.IH[OF ok(4)]] ok(1)
    show ?thesis by (simp add: named_children_def)
  qed
qed

lemma name_shape: "name (shape t) = name t"
  by (cases t) simp

lemma plan_shape: "plan (shape t) = plan t"
proof (induction t)
  case (Task n p cl i ci)
  have n: "named_children (map shape cl) = map shape (named_children cl)"
    by (induction cl) (simp_all add: named_children_def name_shape)
  have m: "map (\<lambda>t. ItemCall (name t)) (map shape (named_children cl))
        = map (\<lambda>t. ItemCall (name t)) (named_children cl)"
    by (simp add: name_shape o_def)
  have "map (plan \<circ> shape) cl = map plan cl"
    by (rule map_cong[OF refl]) (simp add: Task.IH)
  then have "concat (map plan (map shape cl)) = concat (map plan cl)"
    by (simp only: map_map)
  then show ?case using n m by simp
qed

lemma plan_cong: "shape a = shape b \<Longrightarrow> plan a = plan b"
  using plan_shape[of a] plan_shape[of b] by simp

lemma plans_cong: "map shape as = map shape bs \<Longrightarrow> map plan as = map plan bs"
proof (induction as arbitrary: bs)
  case Nil then show ?case by simp
next
  case (Cons a as)
  then obtain b bs' where b: "bs = b # bs'" by (cases bs) auto
  with Cons.prems have "shape a = shape b" and "map shape as = map shape bs'" by simp_all
  then have "plan a = plan b" and "map plan as = map plan bs'"
    using plan_cong Cons.IH by blast+
  with b show ?case by simp
qed

lemma named_children_cong:
  "map shape as = map shape bs \<Longrightarrow>
   map (\<lambda>t. ItemCall (name t)) (named_children as) = map (\<lambda>t. ItemCall (name t)) (named_children bs)"
proof (induction as arbitrary: bs)
  case Nil then show ?case by simp
next
  case (Cons a as)
  then obtain b bs' where b: "bs = b # bs'" by (cases bs) auto
  with Cons.prems have "shape a = shape b" by simp
  then have "name a = name b" using name_shape[of a] name_shape[of b] by simp
  with Cons b show ?case by (simp add: named_children_def)
qed

lemma push_follows_aux:
  "\<forall>r t' s'. push api t s = (r, t', s') \<longrightarrow> follows (snd s) (snd s') r (plan t)"
  "\<forall>r ts' s'. push_children api ts s = (r, ts', s') \<longrightarrow>
     follows (snd s) (snd s') r (concat (map plan ts))"
proof (induction api t s and api ts s rule: push_induct)
  case (named api n p cl i ci s)
  let ?items = "map (\<lambda>t. ItemCall (name t)) (named_children cl)"
  let ?subs = "concat (map plan cl)"
  have pl: "plan (Task n p cl i ci) = [TaskCall (text_of n)] @ ?items @ ?subs"
    using named(1) by simp
  show ?case
  proof (intro allI impI)
    fix r t' s' assume run: "push api (Task n p cl i ci) s = (r, t', s')"
    from run named(1) show "follows (snd s) (snd s') r (plan (Task n p cl i ci))"
    proof (cases rule: push_named_cases)
      case (text_err err)
      then show ?thesis by (simp add: follows_none del: plan.simps)
    next
      case (post_err line err)
      from post_err(1) have line: "TaskCall (text_of n) = label (PostTask line note_text p)"
        by (cases n) auto
      from request_calls[OF post_err(2)] post_err(3)
        follows_stop[OF follows_call[of "snd s" "PostTask line note_text p" "Some err"],
                     of err "?items @ ?subs"]
      show ?thesis unfolding pl line by simp
    next
      case (id_err line resp err)
      from id_err(1) have line: "TaskCall (text_of n) = label (PostTask line note_text p)"
        by (cases n) auto
      from request_calls[OF id_err(2)] id_err(4)
        follows_stop[OF follows_call[of "snd s" "PostTask line note_text p" "Some err"],
                     of err "?items @ ?subs"]
      show ?thesis unfolding pl line by simp
    next
      case (items_err line resp s1 v err cl1)
      from items_err(1) have line: "TaskCall (text_of n) = label (PostTask line note_text p)"
        by (cases n) auto
      from request_calls[OF items_err(2)]
      have a: "follows (snd s) (snd s1) None [TaskCall (text_of n)]"
        unfolding line using follows_call[of "snd s" "PostTask line note_text p" None] by simp
      from push_items_follows[OF items_err(4)]
      have "follows (snd s1) (snd s') (Some err) (?items @ ?subs)"
        by (rule follows_stop)
      from follows_seq[OF a this] items_err(5) show ?thesis unfolding pl by simp
    next
      case (ok line resp s1 v cl1 s2 cl2)
      from ok(1) have line: "TaskCall (text_of n) = label (PostTask line note_text p)"
        by (cases n) auto
      from request_calls[OF ok(2)]
      have a: "follows (snd s) (snd s1) None [TaskCall (text_of n)]"
        unfolding line using follows_call[of "snd s" "PostTask line note_text p" None] by simp
      have b: "follows (snd s1) (snd s2) None ?items"
        by (rule push_items_follows[OF ok(4)])
      from push_items_frame[OF ok(4)] have "map plan cl1 = map plan cl"
        by (intro plans_cong) simp
      with named(2)[OF ok(1-4)] ok(5)
      have c: "follows (snd s2) (snd s') r ?subs" by (cases s') simp
      from follows_seq[OF a follows_seq[OF b c]] show ?thesis unfolding pl by simp
    qed
  qed
next
  case (unnamed api n p cl i ci s)
  show ?case
  proof (intro allI impI)
    fix r t' s' assume run: "push api (Task n p cl i ci) s = (r, t', s')"
    from run unnamed(1) obtain cl' where "push_children api cl s = (r, cl', s')"
      by (rule push_unnamed)
    with unnamed show "follows (snd s) (snd s') r (plan (Task n p cl i ci))"
      by (cases s') simp
  qed
next
  case (Nil api s)
  show ?case by (simp add: follows_nil)
next
  case (Cons api t ts s)
  show ?case
  proof (intro allI impI)
    fix r ts' s' assume run: "push_children api (t # ts) s = (r, ts', s')"
    from run show "follows (snd s) (snd s') r (concat (map plan (t # ts)))"
    proof (cases rule: push_children_Cons_cases)
      case (stop err t')
      with Cons(1) have "follows (snd s) (snd s') (Some err) (plan t)" by (cases s') simp
      from follows_stop[OF this, of err "concat (map plan ts)"] stop show ?thesis by simp
    next
      case (continue t' s1 ts1)
      with Cons(1) have a: "follows (snd s) (snd s1) None (plan t)" by (cases s1) simp
      from Cons(2)[OF continue(1)] continue(2)
      have "follows (snd s1) (snd s') r (concat (map plan ts))" by (cases s') simp
      from follows_seq[OF a this] show ?thesis by simp
    qed
  qed
qed

text \<open>
  C5. The calls of a push, in the order issued, follow the pre-order plan of the tree: for
  each task its own task call, then the checklist calls for its named children, then
  what the recursion into the children issues, children in document order. When push
  returns without an exception the calls are the whole plan; when it stops at an
  exception they are a prefix of it.
\<close>

theorem push_preorder:
  assumes "push api t (w, cs) = (r, t', (w', cs'))"
  shows "\<exists>new. cs' = cs @ new \<and> prefix (map label new) (plan t) \<and>
               (r = None \<longrightarrow> map label new = plan t)"
  using assms push_follows_aux(1)[of api t "(w, cs)"] by (auto simp: follows_def)

theorem push_preorder_witness:
  "push stub_remote example_tree (0, []) = (None, example_pushed, (6, example_calls))
   \<and> map label example_calls = plan example_tree
   \<and> plan example_tree =
       [TaskCall (''Buy milk'' @ progress_suffix),
        TaskCall (''Clean house'' @ progress_suffix),
        ItemCall (PStr ''Vacuum''), ItemCall (PStr ''Dishes''),
        TaskCall (''Vacuum'' @ progress_suffix),
        TaskCall (''Dishes'' @ progress_suffix)]"
  using push_preorder[OF example_push] example_push
  by (simp add: example_tree_def named_children_def)

subsection \<open>Checklist items\<close>

lemma slot_pos: "j < length ts \<Longrightarrow> truthy (name (ts ! j)) \<Longrightarrow> 0 < slot ts j"
proof -
  assume j: "j < length ts" and n: "truthy (name (ts ! j))"
  have "ts ! j \<in> set (take (Suc j) ts)"
    using j by (simp add: take_Suc_conv_app_nth)
  with n have "ts ! j \<in> set (named_children (take (Suc j) ts))"
    by (simp add: named_children_def)
  then show ?thesis unfolding slot_def by (cases "named_children (take (Suc j) ts)") auto
qed

lemma slot_Cons_Suc:
  "slot (t # ts) (Suc j) = (if truthy (name t) then Suc (slot ts j) else slot ts j)"
  by (simp add: slot_def named_children_def)

lemma slot_Cons_0: "slot (t # ts) 0 = (if truthy (name t) then 1 else 0)"
  by (simp add: slot_def named_children_def)

lemma item_calls_Cons:
  "item_calls sid (t # ts) =
     (if truthy (name t) then PostChecklist sid (name t) # item_calls sid ts
      else item_calls sid ts)"
  by (simp add: item_calls_def named_children_def)

lemma push_items_assigns:
  "push_items api sid k ts (w, cs) = (None, ts', (w', cs')) \<Longrightarrow>
   cs' = cs @ item_calls sid ts \<and> length ts' = length ts \<and>
   (\<forall>j<length ts. assigned api w sid k ts ts' j)"
proof (induction ts arbitrary: k w cs ts')
  case Nil
  then show ?case by (simp add: item_calls_def named_children_def)
next
  case (Cons t ts)
  from Cons.prems show ?case
  proof (cases rule: push_items_Cons_cases)
    case (unnamed ts1)
    from Cons.IH[OF unnamed(2)]
    have ih: "cs' = cs @ item_calls sid ts" "length ts1 = length ts"
      "\<forall>j<length ts. assigned api w sid k ts ts1 j" by simp_all
    have "assigned api w sid k (t # ts) ts' j" if "j < length (t # ts)" for j
    proof (cases j)
      case 0
      with unnamed show ?thesis by (simp add: assigned_def)
    next
      case (Suc j')
      with that ih(3) have "assigned api w sid k ts ts1 j'" by simp
      with unnamed Suc show ?thesis
        by (cases "truthy (name (ts ! j'))")
           (simp_all add: assigned_def slot_Cons_Suc item_calls_Cons)
    qed
    with ih unnamed show ?thesis by (simp add: item_calls_Cons)
  next
    case (ok resp s1 v ts1)
    obtain w1 where s1: "s1 = (w1, cs @ [PostChecklist sid (name t)])"
      and api: "api w (PostChecklist sid (name t)) = (Inr resp, w1)"
      using ok(2) by (auto split: prod.splits)
    from Cons.IH[OF ok(4)[unfolded s1]]
    have ih: "cs' = (cs @ [PostChecklist sid (name t)]) @ item_calls sid ts"
      "length ts1 = length ts"
      "\<forall>j<length ts. assigned api w1 sid (k + 1) ts ts1 j" by simp_all
    have "assigned api w sid k (t # ts) ts' j" if "j < length (t # ts)" for j
    proof (cases j)
      case 0
      with ok api show ?thesis
        by (simp add: assigned_def slot_Cons_0 item_calls_Cons)
    next
      case (Suc j')
      with that have j': "j' < length ts" by simp
      with ih(3) have a: "assigned api w1 sid (k + 1) ts ts1 j'" by simp
      show ?thesis
      proof (cases "truthy (name (ts ! j'))")
        case False
        with a ok Suc show ?thesis by (simp add: assigned_def)
      next
        case True
        from slot_pos[OF j' True] obtain m where m: "slot ts j' = Suc m"
          by (cases "slot ts j'") auto
        from a True m obtain resp' v' where
          "replies api w1 (item_calls sid ts) ! m = Inr resp'"
          "item_id resp' (k + 1 + Suc m) = Inr v'"
          "ts1 ! j' = set_checklist_id (ts ! j') v'"
          by (auto simp: assigned_def)
        with ok(1,5) api Suc True m show ?thesis
          by (simp add: assigned_def slot_Cons_Suc item_calls_Cons)
      qed
    qed
    with ih ok show ?thesis by (simp add: item_calls_Cons)
  qed simp_all
qed

lemma request_api:
  "request api c (w, cs) = (x, s') \<Longrightarrow> \<exists>w1. api w c = (x, w1) \<and> s' = (w1, cs @ [c])"
  by (auto split: prod.splits)

lemma push_children_grows:
  assumes "push_children api ts s = (r, ts', s')"
  shows "\<exists>new. snd s' = snd s @ new"
  using assms push_follows_aux(2)[of api ts s] by (cases s') (auto simp: follows_def)

lemma kept_unnamed:
  "kept b t' = kept b t \<Longrightarrow> \<not> truthy (name t) \<Longrightarrow>
   id_task t' = id_task t \<and> checklist_id t' = checklist_id t"
  by (cases t; cases t') auto

lemma checklist_id_set_checklist_id [simp]: "checklist_id (set_checklist_id t v) = v"
  by (cases t) simp

lemma gap_parse:
  "Task_init (PStr ''p'') (PList [PStr ''x'', PStr '''', PStr ''y'']) = Inr gap_task"
  by (simp add: gap_children_def gap_task_def)

lemma gap_push:
  "push stub_remote (Task (PStr ''p'') default_priority gap_children PNone PNone) (0, [])
     = (None, gap_pushed, (5, gap_calls))"
  by (simp add: gap_children_def gap_pushed_def gap_calls_def item_id_def digit_def)

text \<open>
  C7. When the push of a task with a true name completes: the task call was answered
  with a response whose \<^verbatim>\<open>id\<close> is now the task's \<^verbatim>\<open>id\<close>; right after the task call,
  push issued one checklist call with that id and the child's name for each immediate
  child with a true name, in order, and no other call before the recursion into the
  children. A named child at position \<open>slot cl j\<close> among the named children (counted
  from 1) has as \<^verbatim>\<open>checklist_id\<close> the \<^verbatim>\<open>id\<close> found at that position of the
  \<^verbatim>\<open>checklist\<close> in the response to its own call. A child without a true name takes no
  position, and its \<^verbatim>\<open>checklist_id\<close> and \<^verbatim>\<open>id\<close> are what they were.
\<close>

theorem push_assigns_checklist_ids:
  assumes "push api (Task n p cl i ci) (w, cs) = (None, t', (w', cs'))" and "truthy n"
  shows "\<exists>line resp w1 pid rest.
      task_text n = Inr line \<and>
      api w (PostTask line note_text p) = (Inr resp, w1) \<and>
      getitem_str resp ''id'' = Inr pid \<and>
      id_task t' = pid \<and>
      cs' = cs @ PostTask line note_text p
                 # map (\<lambda>t. PostChecklist pid (name t)) (named_children cl) @ rest \<and>
      length (checklist t') = length cl \<and>
      (\<forall>j<length cl.
         if truthy (name (cl ! j)) then
           (\<exists>r v. replies api w1 (map (\<lambda>t. PostChecklist pid (name t)) (named_children cl))
                      ! (slot cl j - 1) = Inr r \<and>
                  item_id r (slot cl j) = Inr v \<and>
                  checklist_id (checklist t' ! j) = v)
         else checklist_id (checklist t' ! j) = checklist_id (cl ! j) \<and>
              id_task (checklist t' ! j) = id_task (cl ! j))"
  using assms
proof (cases rule: push_named_cases)
  case (ok line resp s1 pid cl1 s2 cl2)
  from request_api[OF ok(2)] obtain w1 where
    api: "api w (PostTask line note_text p) = (Inr resp, w1)"
    and s1: "s1 = (w1, cs @ [PostTask line note_text p])" by blast
  obtain w2 cs2 where s2: "s2 = (w2, cs2)" by (cases s2)
  from push_items_assigns[OF ok(4)[unfolded s1 s2]]
  have cs2: "cs2 = (cs @ [PostTask line note_text p]) @ item_calls pid cl"
    and len1: "length cl1 = length cl"
    and asg: "\<And>j. j < length cl \<Longrightarrow> assigned api w1 pid 0 cl cl1 j" by simp_all
  from push_children_grows[OF ok(5)] s2 obtain rest where rest: "cs' = cs2 @ rest" by auto
  from push_frame_aux(2)[of api cl1 s2] ok(5)
  have cid: "map checklist_id cl2 = map checklist_id cl1" by blast
  then have len2: "length cl2 = length cl1" by (rule map_eq_imp_length_eq)
  from push_kept_aux(2)[of api cl1 s2] ok(5) push_items_kept[OF ok(4)]
  have kp: "map (kept True) cl2 = map (kept True) cl" by simp
  have each: "if truthy (name (cl ! j)) then
           (\<exists>r v. replies api w1 (map (\<lambda>t. PostChecklist pid (name t)) (named_children cl))
                      ! (slot cl j - 1) = Inr r \<and>
                  item_id r (slot cl j) = Inr v \<and>
                  checklist_id (cl2 ! j) = v)
         else checklist_id (cl2 ! j) = checklist_id (cl ! j) \<and>
              id_task (cl2 ! j) = id_task (cl ! j)" if j: "j < length cl" for j
  proof (cases "truthy (name (cl ! j))")
    case True
    with asg[OF j] obtain r v where
      r: "replies api w1 (item_calls pid cl) ! (slot cl j - 1) = Inr r"
      and v: "item_id r (slot cl j) = Inr v"
      and c1: "cl1 ! j = set_checklist_id (cl ! j) v" by (auto simp: assigned_def)
    from cid j len1 len2 have "checklist_id (cl2 ! j) = checklist_id (cl1 ! j)"
      by (metis nth_map)
    with c1 have "checklist_id (cl2 ! j) = v" by simp
    with True r v show ?thesis by (auto simp: item_calls_def)
  next
    case False
    from kp j len1 len2 have "kept True (cl2 ! j) = kept True (cl ! j)"
      by (metis nth_map)
    from kept_unnamed[OF this False] False show ?thesis by simp
  qed
  have ct: "checklist t' = cl2" using ok(6) by simp
  from each have all: "\<forall>j<length cl. if truthy (name (cl ! j)) then
           (\<exists>r v. replies api w1 (map (\<lambda>t. PostChecklist pid (name t)) (named_children cl))
                      ! (slot cl j - 1) = Inr r \<and>
                  item_id r (slot cl j) = Inr v \<and>
                  checklist_id (checklist t' ! j) = v)
         else checklist_id (checklist t' ! j) = checklist_id (cl ! j) \<and>
              id_task (checklist t' ! j) = id_task (cl ! j)"
    unfolding ct by blast
  have calls: "cs' = cs @ PostTask line note_text p
                 # map (\<lambda>t. PostChecklist pid (name t)) (named_children cl) @ rest"
    using rest cs2 by (simp add: item_calls_def)
  have lent: "length (checklist t') = length cl" using ok(6) len1 len2 by simp
  have idt: "id_task t' = pid" using ok(6) by simp
  from ok(1) api ok(3) idt calls lent all show ?thesis by blast
qed simp_all

theorem push_assigns_checklist_ids_witness:
  "truthy (PStr ''p'')
   \<and> push stub_remote (Task (PStr ''p'') default_priority gap_children PNone PNone) (0, [])
       = (None, gap_pushed, (5, gap_calls))
   \<and> stub_remote 0 (PostTask (''p'' @ progress_suffix) note_text default_priority)
       = (Inr (PDict [(PStr ''id'', PStr ''t0'')]), 1)
   \<and> slot gap_children 0 = 1 \<and> slot gap_children 2 = 2
   \<and> map checklist_id (checklist gap_pushed) = [PStr ''c11'', PNone, PStr ''c22'']
   \<and> (\<exists>r. replies stub_remote 1
               (map (\<lambda>t. PostChecklist (PStr ''t0'') (name t)) (named_children gap_children)) ! 1
             = Inr r \<and> item_id r 2 = Inr (PStr ''c22''))"
proof -
  have n: "truthy (PStr ''p'')" by simp
  from push_assigns_checklist_ids[OF gap_push n] gap_push n show ?thesis
    by (simp add: gap_children_def gap_pushed_def slot_def named_children_def item_id_def digit_def)
qed

text \<open>
  The index read in the response is the position counted from 1. On a remote that returns
  the items created so far as a list indexed from 0, the first checklist call of the
  example is answered with a list of one item, and reading index 1 raises.
\<close>

lemma zero_based_checklist_raises:
  "fst (push appending_remote example_tree ([], [])) = Some IndexError"
  by (simp add: example_tree_def item_id_def)

subsection \<open>The end-to-end example\<close>

lemma push_leaf_reply:
  assumes "push api (Task (PStr n) p [] i ci) (w, cs) = (None, t', (w', cs'))" and "n \<noteq> []"
  shows "\<exists>resp v. api w (PostTask (n @ progress_suffix) note_text p) = (Inr resp, w') \<and>
           getitem_str resp ''id'' = Inr v \<and>
           t' = Task (PStr n) p [] v ci \<and>
           cs' = cs @ [PostTask (n @ progress_suffix) note_text p]"
  using assms by (auto split: sum.splits prod.splits option.splits)

lemma push_two_leaves_reply:
  assumes "push_children api [Task (PStr n) p [] i ci, Task (PStr m) q [] j cj] (w, cs)
             = (None, ts', (w', cs'))" and "n \<noteq> []" and "m \<noteq> []"
  shows "\<exists>ra v w1 rb u.
           api w (PostTask (n @ progress_suffix) note_text p) = (Inr ra, w1) \<and>
           getitem_str ra ''id'' = Inr v \<and>
           api w1 (PostTask (m @ progress_suffix) note_text q) = (Inr rb, w') \<and>
           getitem_str rb ''id'' = Inr u \<and>
           ts' = [Task (PStr n) p [] v ci, Task (PStr m) q [] u cj] \<and>
           cs' = cs @ [PostTask (n @ progress_suffix) note_text p,
                       PostTask (m @ progress_suffix) note_text q]"
  using assms(1)
proof (cases rule: push_children_Cons_cases)
  case (continue t1 s1 ts1)
  obtain w1 cs1 where s1: "s1 = (w1, cs1)" by (cases s1)
  from push_leaf_reply[OF continue(1)[unfolded s1] assms(2)]
  obtain ra v where a: "api w (PostTask (n @ progress_suffix) note_text p) = (Inr ra, w1)"
    "getitem_str ra ''id'' = Inr v" "t1 = Task (PStr n) p [] v ci"
    "cs1 = cs @ [PostTask (n @ progress_suffix) note_text p]" by blast
  from continue(2) show ?thesis
  proof (cases rule: push_children_Cons_cases)
    case (continue t2 s2 ts2)
    from continue(2) have e: "ts2 = []" "s2 = (w', cs')" by simp_all
    from push_leaf_reply[OF continue(1)[unfolded s1 e] assms(3)]
    obtain rb u where b: "api w1 (PostTask (m @ progress_suffix) note_text q) = (Inr rb, w')"
      "getitem_str rb ''id'' = Inr u" "t2 = Task (PStr m) q [] u cj"
      "cs' = cs1 @ [PostTask (m @ progress_suffix) note_text q]" by blast
    from a b e \<open>ts' = t1 # ts1\<close> \<open>ts1 = t2 # ts2\<close> show ?thesis by simp
  qed simp
qed simp

lemma push_two_items_reply:
  assumes "push_items api sid 0 [Task (PStr n) p [] i ci, Task (PStr m) q [] j cj] (w, cs)
             = (None, ts', (w', cs'))" and "n \<noteq> []" and "m \<noteq> []"
  shows "\<exists>ra c w1 rb d.
           api w (PostChecklist sid (PStr n)) = (Inr ra, w1) \<and> item_id ra 1 = Inr c \<and>
           api w1 (PostChecklist sid (PStr m)) = (Inr rb, w') \<and> item_id rb 2 = Inr d \<and>
           ts' = [Task (PStr n) p [] i c, Task (PStr m) q [] j d] \<and>
           cs' = cs @ [PostChecklist sid (PStr n), PostChecklist sid (PStr m)]"
  using assms by (auto simp: numeral_2_eq_2 split: sum.splits prod.splits option.splits)

lemma example_push_replies:
  assumes "push api example_tree (w, []) = (None, t', (w', cs))"
  shows "\<exists>r1 r2 r3 r4 r5 r6 i1 i2 i3 i4 c1 c2.
     cs = [PostTask (''Buy milk'' @ progress_suffix) note_text default_priority,
           PostTask (''Clean house'' @ progress_suffix) note_text (PInt 2),
           PostChecklist i2 (PStr ''Vacuum''),
           PostChecklist i2 (PStr ''Dishes''),
           PostTask (''Vacuum'' @ progress_suffix) note_text default_priority,
           PostTask (''Dishes'' @ progress_suffix) note_text default_priority]
     \<and> replies api w cs = [Inr r1, Inr r2, Inr r3, Inr r4, Inr r5, Inr r6]
     \<and> getitem_str r1 ''id'' = Inr i1 \<and> getitem_str r2 ''id'' = Inr i2
     \<and> item_id r3 1 = Inr c1 \<and> item_id r4 2 = Inr c2
     \<and> getitem_str r5 ''id'' = Inr i3 \<and> getitem_str r6 ''id'' = Inr i4
     \<and> t' = Task PNone default_priority
       [Task (PStr ''Buy milk'') default_priority [] i1 PNone,
        Task (PStr ''Clean house'') (PInt 2)
         [Task (PStr ''Vacuum'') default_priority [] i3 c1,
          Task (PStr ''Dishes'') default_priority [] i4 c2]
         i2 PNone]
       PNone PNone"
proof -
  let ?B = "Task (PStr ''Buy milk'') default_priority [] PNone PNone"
  let ?V = "Task (PStr ''Vacuum'') default_priority [] PNone PNone"
  let ?D = "Task (PStr ''Dishes'') default_priority [] PNone PNone"
  let ?C = "Task (PStr ''Clean house'') (PInt 2) [?V, ?D] PNone PNone"
  from assms obtain cl' where
    top: "push_children api [?B, ?C] (w, []) = (None, cl', (w', cs))"
    and t': "t' = Task PNone default_priority cl' PNone PNone"
    unfolding example_tree_def by (rule push_unnamed) simp
  from top show ?thesis
  proof (cases rule: push_children_Cons_cases)
    case (continue b' s1 ts1)
    obtain w1 cs1 where s1: "s1 = (w1, cs1)" by (cases s1)
    from push_leaf_reply[OF continue(1)[unfolded s1]]
    obtain r1 i1 where
      a1: "api w (PostTask (''Buy milk'' @ progress_suffix) note_text default_priority) = (Inr r1, w1)"
      and g1: "getitem_str r1 ''id'' = Inr i1"
      and b': "b' = Task (PStr ''Buy milk'') default_priority [] i1 PNone"
      and cs1: "cs1 = [PostTask (''Buy milk'' @ progress_suffix) note_text default_priority]"
      by auto
    from continue(2) show ?thesis
    proof (cases rule: push_children_Cons_cases)
      case (continue c' s2 ts2)
      from continue(2) have e: "ts2 = []" "s2 = (w', cs)" by simp_all
      have "truthy (PStr ''Clean house'')" by simp
      with continue(1) show ?thesis
      proof (cases rule: push_named_cases)
        case (ok line r2 sA i2 cl1 sB cl2)
        obtain wB csB where sB: "sB = (wB, csB)" by (cases sB)
        from ok(1) have line: "line = ''Clean house'' @ progress_suffix" by simp
        from request_api[OF ok(2)[unfolded s1]] obtain wA where
          a2: "api w1 (PostTask line note_text (PInt 2)) = (Inr r2, wA)"
          and sA: "sA = (wA, cs1 @ [PostTask line note_text (PInt 2)])" by blast
        from push_two_items_reply[OF ok(4)[unfolded sA sB]]
        obtain r3 c1 wa r4 c2 where
          a3: "api wA (PostChecklist i2 (PStr ''Vacuum'')) = (Inr r3, wa)"
          and g3: "item_id r3 1 = Inr c1"
          and a4: "api wa (PostChecklist i2 (PStr ''Dishes'')) = (Inr r4, wB)"
          and g4: "item_id r4 2 = Inr c2"
          and cl1: "cl1 = [Task (PStr ''Vacuum'') default_priority [] PNone c1,
                           Task (PStr ''Dishes'') default_priority [] PNone c2]"
          and csB: "csB = (cs1 @ [PostTask line note_text (PInt 2)]) @
                      [PostChecklist i2 (PStr ''Vacuum''), PostChecklist i2 (PStr ''Dishes'')]"
          by auto
        from push_two_leaves_reply[OF ok(5)[unfolded sB cl1 e]]
        obtain r5 i3 w5 r6 i4 where
          a5: "api wB (PostTask (''Vacuum'' @ progress_suffix) note_text default_priority) = (Inr r5, w5)"
          and g5: "getitem_str r5 ''id'' = Inr i3"
          and a6: "api w5 (PostTask (''Dishes'' @ progress_suffix) note_text default_priority) = (Inr r6, w')"
          and g6: "getitem_str r6 ''id'' = Inr i4"
          and cl2: "cl2 = [Task (PStr ''Vacuum'') default_priority [] i3 c1,
                           Task (PStr ''Dishes'') default_priority [] i4 c2]"
          and cs: "cs = csB @ [PostTask (''Vacuum'' @ progress_suffix) note_text default_priority,
                               PostTask (''Dishes'' @ progress_suffix) note_text default_priority]"
          by auto
        have calls: "cs = [PostTask (''Buy milk'' @ progress_suffix) note_text default_priority,
           PostTask (''Clean house'' @ progress_suffix) note_text (PInt 2),
           PostChecklist i2 (PStr ''Vacuum''),
           PostChecklist i2 (PStr ''Dishes''),
           PostTask (''Vacuum'' @ progress_suffix) note_text default_priority,
           PostTask (''Dishes'' @ progress_suffix) note_text default_priority]"
          using cs csB cs1 line by simp
        have reps: "replies api w cs = [Inr r1, Inr r2, Inr r3, Inr r4, Inr r5, Inr r6]"
          unfolding calls using a1 a2 a3 a4 a5 a6 line by simp
        have tree: "t' = Task PNone default_priority
           [Task (PStr ''Buy milk'') default_priority [] i1 PNone,
            Task (PStr ''Clean house'') (PInt 2)
             [Task (PStr ''Vacuum'') default_priority [] i3 c1,
              Task (PStr ''Dishes'') default_priority [] i4 c2]
             i2 PNone]
           PNone PNone"
          using t' \<open>cl' = b' # ts1\<close> \<open>ts1 = c' # ts2\<close> e b' ok(6) cl2 by simp
        from calls reps g1 ok(3) g3 g4 g5 g6 tree show ?thesis by blast
      qed simp_all
    qed simp
  qed simp
qed

text \<open>
  C6 (as amended). Pushing the tree parsed from the example document to any remote on which
  the push completes issues exactly four task calls and two checklist calls, in this
  order: "Buy milk", "Clean house", the checklist items "Vacuum" and "Dishes" under the
  identifier returned for "Clean house", and then "Vacuum" and "Dishes" as tasks of their
  own. Each of the four tasks carries the \<^verbatim>\<open>id\<close> of the response to its own task call;
  "Vacuum" and "Dishes" carry as \<^verbatim>\<open>checklist_id\<close> the \<^verbatim>\<open>id\<close> at positions 1 and 2 of
  the \<^verbatim>\<open>checklist\<close> in the responses to their checklist calls. When these six returned
  values are all true (non-empty), the re-serialized document contains every one of them.
\<close>

theorem example_push_four_tasks:
  assumes "Task_init PNone example_doc = Inr t"
      and "push api t (w, []) = (None, t', (w', cs))"
  shows "length (filter is_PostTask cs) = 4 \<and>
    (\<exists>r1 r2 r3 r4 r5 r6 i1 i2 i3 i4 c1 c2.
       cs = [PostTask (''Buy milk'' @ progress_suffix) note_text default_priority,
             PostTask (''Clean house'' @ progress_suffix) note_text (PInt 2),
             PostChecklist i2 (PStr ''Vacuum''),
             PostChecklist i2 (PStr ''Dishes''),
             PostTask (''Vacuum'' @ progress_suffix) note_text default_priority,
             PostTask (''Dishes'' @ progress_suffix) note_text default_priority]
     \<and> replies api w cs = [Inr r1, Inr r2, Inr r3, Inr r4, Inr r5, Inr r6]
     \<and> getitem_str r1 ''id'' = Inr i1 \<and> getitem_str r2 ''id'' = Inr i2
     \<and> item_id r3 1 = Inr c1 \<and> item_id r4 2 = Inr c2
     \<and> getitem_str r5 ''id'' = Inr i3 \<and> getitem_str r6 ''id'' = Inr i4
     \<and> t' = Task PNone default_priority
            [Task (PStr ''Buy milk'') default_priority [] i1 PNone,
             Task (PStr ''Clean house'') (PInt 2)
              [Task (PStr ''Vacuum'') default_priority [] i3 c1,
               Task (PStr ''Dishes'') default_priority [] i4 c2]
              i2 PNone]
            PNone PNone
     \<and> (truthy i1 \<and> truthy i2 \<and> truthy i3 \<and> truthy i4 \<and> truthy c1 \<and> truthy c2 \<longrightarrow>
        iter_task t' =
          [PDict [(PStr ''Buy milk'',
             PList [PDict [(PStr ''id'', i1)], PDict [(PStr ''priority'', default_priority)]])],
           PDict [(PStr ''Clean house'',
             PList [PDict [(PStr ''id'', i2)], PDict [(PStr ''priority'', PInt 2)],
               PDict [(PStr ''Vacuum'',
                 PList [PDict [(PStr ''id'', i3)], PDict [(PStr ''checklist_id'', c1)],
                        PDict [(PStr ''priority'', default_priority)]])],
               PDict [(PStr ''Dishes'',
                 PList [PDict [(PStr ''id'', i4)], PDict [(PStr ''checklist_id'', c2)],
                        PDict [(PStr ''priority'', default_priority)]])]])]]))"
proof -
  from assms(1) have "t = example_tree" using example_parse by simp
  with assms(2) have "push api example_tree (w, []) = (None, t', (w', cs))" by simp
  from example_push_replies[OF this] obtain r1 r2 r3 r4 r5 r6 i1 i2 i3 i4 c1 c2 where
    cs: "cs = [PostTask (''Buy milk'' @ progress_suffix) note_text default_priority,
             PostTask (''Clean house'' @ progress_suffix) note_text (PInt 2),
             PostChecklist i2 (PStr ''Vacuum''),
             PostChecklist i2 (PStr ''Dishes''),
             PostTask (''Vacuum'' @ progress_suffix) note_text default_priority,
             PostTask (''Dishes'' @ progress_suffix) note_text default_priority]"
    and reps: "replies api w cs = [Inr r1, Inr r2, Inr r3, Inr r4, Inr r5, Inr r6]"
    and ids: "getitem_str r1 ''id'' = Inr i1" "getitem_str r2 ''id'' = Inr i2"
       "item_id r3 1 = Inr c1" "item_id r4 2 = Inr c2"
       "getitem_str r5 ''id'' = Inr i3" "getitem_str r6 ''id'' = Inr i4"
    and t': "t' = Task PNone default_priority
       [Task (PStr ''Buy milk'') default_priority [] i1 PNone,
        Task (PStr ''Clean house'') (PInt 2)
         [Task (PStr ''Vacuum'') default_priority [] i3 c1,
          Task (PStr ''Dishes'') default_priority [] i4 c2]
         i2 PNone]
       PNone PNone"
    by blast
  have n: "length (filter is_PostTask cs) = 4" unfolding cs by simp
  have d: "truthy i1 \<and> truthy i2 \<and> truthy i3 \<and> truthy i4 \<and> truthy c1 \<and> truthy c2 \<longrightarrow>
        iter_task t' =
          [PDict [(PStr ''Buy milk'',
             PList [PDict [(PStr ''id'', i1)], PDict [(PStr ''priority'', default_priority)]])],
           PDict [(PStr ''Clean house'',
             PList [PDict [(PStr ''id'', i2)], PDict [(PStr ''priority'', PInt 2)],
               PDict [(PStr ''Vacuum'',
                 PList [PDict [(PStr ''id'', i3)], PDict [(PStr ''checklist_id'', c1)],
                        PDict [(PStr ''priority'', default_priority)]])],
               PDict [(PStr ''Dishes'',
                 PList [PDict [(PStr ''id'', i4)], PDict [(PStr ''checklist_id'', c2)],
                        PDict [(PStr ''priority'', default_priority)]])]])]]"
    unfolding t' by simp
  from n cs reps ids t' d show ?thesis by blast
qed

theorem example_push_four_tasks_witness:
  "Task_init PNone example_doc = Inr example_tree
   \<and> push stub_remote example_tree (0, []) = (None, example_pushed, (6, example_calls))
   \<and> length (filter is_PostTask example_calls) = 4
   \<and> replies stub_remote 0 example_calls =
       [Inr (PDict [(PStr ''id'', PStr ''t0'')]),
        Inr (PDict [(PStr ''id'', PStr ''t1'')]),
        Inr (PDict [(PStr ''checklist'', PList
              [PDict [(PStr ''id'', PStr ''c20'')], PDict [(PStr ''id'', PStr ''c21'')],
               PDict [(PStr ''id'', PStr ''c22'')], PDict [(PStr ''id'', PStr ''c23'')]])]),
        Inr (PDict [(PStr ''checklist'', PList
              [PDict [(PStr ''id'', PStr ''c30'')], PDict [(PStr ''id'', PStr ''c31'')],
               PDict [(PStr ''id'', PStr ''c32'')], PDict [(PStr ''id'', PStr ''c33'')]])]),
        Inr (PDict [(PStr ''id'', PStr ''t4'')]),
        Inr (PDict [(PStr ''id'', PStr ''t5'')])]
   \<and> iter_task example_pushed =
    [PDict [(PStr ''Buy milk'',
       PList [PDict [(PStr ''id'', PStr ''t0'')], PDict [(PStr ''priority'', default_priority)]])],
     PDict [(PStr ''Clean house'',
       PList [PDict [(PStr ''id'', PStr ''t1'')], PDict [(PStr ''priority'', PInt 2)],
         PDict [(PStr ''Vacuum'',
           PList [PDict [(PStr ''id'', PStr ''t4'')], PDict [(PStr ''checklist_id'', PStr ''c21'')],
                  PDict [(PStr ''priority'', default_priority)]])],
         PDict [(PStr ''Dishes'',
           PList [PDict [(PStr ''id'', PStr ''t5'')], PDict [(PStr ''checklist_id'', PStr ''c32'')],
                  PDict [(PStr ''priority'', default_priority)]])]])]]"
  using example_push_four_tasks[OF example_parse example_push] example_parse example_push
  by (simp add: example_pushed_def example_calls_def digit_def upt_conv_Cons)

text \<open>The push of the example issues four task calls, not three.\<close>

theorem example_not_three_tasks:
  "Task_init PNone example_doc = Inr example_tree
   \<and> fst (push stub_remote example_tree (0, [])) = None
   \<and> length (filter is_PostTask (snd (snd (snd (push stub_remote example_tree (0, [])))))) = 4"
  using example_parse example_push by (simp add: example_calls_def)

end
